theory Spec2Isabelle
  imports Main
begin

section \<open>Values of the JavaScript program\<close>

text \<open>
  \<^verbatim>\<open>src/evaluator.js\<close> is the memoising evaluator of getters over an immutable state
  tree.  It handles three kinds of run-time values: primitives, plain (mutable) arrays
  and objects, which JavaScript passes by reference, and the persistent collections of
  the Immutable library.  A plain array or object is an address into a store, so that
  two references to the same object are told apart from two equal copies.  Numbers are
  the integers (hash codes, counters); other numbers are outside the model.
\<close>

type_synonym addr = nat

datatype val =
    VUndefined
  | VNull
  | VBool bool
  | VNum int
  | VStr string
  | VRef addr
  | IMap "(val \<times> val) list"
  | IList "val list"

datatype obj = PArr "val list" | PObj "(string \<times> val) list"

type_synonym store = "obj list"

text \<open>Allocation of a new plain array or object: the next free address.\<close>

definition alloc :: "obj \<Rightarrow> store \<Rightarrow> val \<times> store" where
  "alloc ob st = (VRef (length st), st @ [ob])"

text \<open>
  JavaScript truthiness, for the tests \<^verbatim>\<open>state && state.getIn\<close> of line 66 and
  \<^verbatim>\<open>nested && nested.get\<close> of \<^verbatim>\<open>getIn\<close>.
\<close>

fun truthy :: "val \<Rightarrow> bool" where
  "truthy VUndefined = False"
| "truthy VNull = False"
| "truthy (VBool b) = b"
| "truthy (VNum n) = (n \<noteq> 0)"
| "truthy (VStr s) = (s \<noteq> [])"
| "truthy (VRef a) = True"
| "truthy (IMap kvs) = True"
| "truthy (IList xs) = True"

text \<open>
  The errors \<^verbatim>\<open>evaluate\<close> can end with: the \<^verbatim>\<open>Error\<close> thrown at line 73, the \<^verbatim>\<open>TypeError\<close>
  of calling what is no function, the \<^verbatim>\<open>ReferenceError\<close> of reading an unbound identifier,
  and whatever a compute function throws.
\<close>

datatype exn = InvalidArgument | TypeError | ReferenceError | Thrown val

subsection \<open>The Immutable library on its collections\<close>

text \<open>
  \<^verbatim>\<open>isImmutable\<close> of \<^verbatim>\<open>./immutable-helpers\<close>: the value is a collection of the Immutable
  library.
\<close>

fun isImmutable :: "val \<Rightarrow> bool" where
  "isImmutable (IMap kvs) = True"
| "isImmutable (IList xs) = True"
| "isImmutable v = False"

text \<open>
  An index into a list may be given as a string: \<^verbatim>\<open>List.get\<close> takes a string that is the
  decimal numeral of an array index (digits only, no leading zero, below \<^verbatim>\<open>4294967295\<close>)
  for that index, and any other string for no index.
\<close>

definition digit_val :: "char \<Rightarrow> nat option" where
  "digit_val c =
     (let n = (of_char c :: nat) in if 48 \<le> n \<and> n \<le> 57 then Some (n - 48) else None)"

fun decimal :: "string \<Rightarrow> nat \<Rightarrow> nat option" where
  "decimal [] acc = Some acc"
| "decimal (c # cs) acc =
     (case digit_val c of None \<Rightarrow> None | Some d \<Rightarrow> decimal cs (10 * acc + d))"

definition array_index :: "string \<Rightarrow> nat option" where
  "array_index s =
     (case s of
        [] \<Rightarrow> None
      | c # cs \<Rightarrow>
          if c = CHR ''0'' \<and> cs \<noteq> [] then None
          else (case decimal s 0 of
                  None \<Rightarrow> None
                | Some n \<Rightarrow> if n < 4294967295 then Some n else None))"

text \<open>
  \<^verbatim>\<open>collection.get(key, NOT_SET)\<close>: a map looks the key up by value; a list takes an
  integer index, a negative one counting from the end, or a string that is an array
  index.  \<open>None\<close> is \<^verbatim>\<open>NOT_SET\<close>.
\<close>

fun im_get :: "val \<Rightarrow> val \<Rightarrow> val option" where
  "im_get (IMap kvs) k = map_of kvs k"
| "im_get (IList xs) (VNum i) =
     (let n = int (length xs); j = (if i < 0 then n + i else i)
      in if 0 \<le> j \<and> j < n then Some (xs ! nat j) else None)"
| "im_get (IList xs) (VStr s) =
     (case array_index s of
        None \<Rightarrow> None
      | Some j \<Rightarrow> if j < length xs then Some (xs ! j) else None)"
| "im_get v k = None"

definition im_has :: "val \<Rightarrow> val \<Rightarrow> bool" where
  "im_has c k = (im_get c k \<noteq> None)"

text \<open>
  One step of \<^verbatim>\<open>getIn\<close>, \<^verbatim>\<open>nested && nested.get ? nested.get(key, NOT_SET) : NOT_SET\<close>.
  A collection is asked for the key.  A primitive, a plain array and a plain object
  without a field \<^verbatim>\<open>get\<close> have no such method.  A plain object with a truthy field
  \<^verbatim>\<open>get\<close> is called: the values of the model contain no function, so that is a
  \<^verbatim>\<open>TypeError\<close>.
\<close>

fun nested_get :: "store \<Rightarrow> val \<Rightarrow> val \<Rightarrow> exn + val option" where
  "nested_get st (VRef a) k =
     (if a < length st then
        (case st ! a of
           PArr xs \<Rightarrow> Inr None
         | PObj fs \<Rightarrow>
             (case map_of fs ''get'' of
                None \<Rightarrow> Inr None
              | Some v \<Rightarrow> if truthy v then Inl TypeError else Inr None))
      else Inr None)"
| "nested_get st v k = Inr (im_get v k)"

text \<open>
  \<^verbatim>\<open>collection.getIn(path)\<close> of Immutable 3: walks the path step by step; a missing key,
  or a step into a value without \<^verbatim>\<open>get\<close>, gives \<^verbatim>\<open>undefined\<close>.
\<close>

fun getIn :: "store \<Rightarrow> val \<Rightarrow> val list \<Rightarrow> exn + val" where
  "getIn st v [] = Inr v"
| "getIn st v (k # ks) =
     (case nested_get st v k of
        Inl x \<Rightarrow> Inl x
      | Inr None \<Rightarrow> Inr VUndefined
      | Inr (Some y) \<Rightarrow> getIn st y ks)"

section \<open>KeyPaths, Getters and the collaborators of the evaluator\<close>

text \<open>
  Modelled from the spec: \<^verbatim>\<open>isKeyPath\<close> (\<^verbatim>\<open>./key-path\<close>), \<^verbatim>\<open>isGetter\<close>, \<^verbatim>\<open>getDeps\<close> and
  \<^verbatim>\<open>getComputeFn\<close> (\<^verbatim>\<open>./getter\<close>) are not in the source tree.  The spec gives two
  mutually exclusive shapes: a KeyPath is an ordered sequence of keys, a Getter is an
  ordered sequence of dependencies with one compute function.  Anything else is
  \<open>NotDescriptor\<close>.  The shape test looks at the value itself only: a dependency of a
  Getter may be no descriptor, which the nested call of \<^verbatim>\<open>evaluate\<close> finds out.  A
  compute function is a reference to a function object; it is named by a number, and
  the environment below gives its behaviour.
\<close>

datatype desc =
    KeyPath "val list"
  | Getter "desc list" nat
  | NotDescriptor val

text \<open>
  The functions the evaluator requires from modules that are not in the source tree are
  parameters of the model:
  \<^item> \<open>hashCode\<close>: \<^verbatim>\<open>./hash-code\<close>, the fingerprint of a getter, the key of the cache;
  \<^item> \<open>imm_hashCode\<close>: the method \<^verbatim>\<open>hashCode()\<close> of an Immutable collection;
  \<^item> \<open>toImmutable\<close>: \<^verbatim>\<open>./immutable-helpers\<close>, applied to the array of argument values;
  \<^item> \<open>cloneDeep\<close>: \<^verbatim>\<open>./utils\<close>, which allocates the copy in the store;
  \<^item> \<open>computeFn\<close>: what calling the function object with a given number does on a list
    of arguments: it returns a value (\<open>Inr\<close>) or throws one (\<open>Inl\<close>), and may allocate.
\<close>

record env =
  hashCode :: "desc \<Rightarrow> int"
  imm_hashCode :: "val \<Rightarrow> int"
  toImmutable :: "store \<Rightarrow> val list \<Rightarrow> val"
  cloneDeep :: "val \<Rightarrow> store \<Rightarrow> val \<times> store"
  computeFn :: "nat \<Rightarrow> val list \<Rightarrow> store \<Rightarrow> (val + val) \<times> store"

section \<open>The evaluator\<close>

text \<open>
  One entry of \<^verbatim>\<open>__cachedGetters\<close>: the map with the keys \<^verbatim>\<open>stateHashCode\<close>, \<^verbatim>\<open>value\<close>
  and \<^verbatim>\<open>args\<close>.
\<close>

record entry =
  stateHashCode :: val
  entry_value :: val
  entry_args :: val

text \<open>
  The state the calls run in: the evaluator's only field \<^verbatim>\<open>__cachedGetters\<close>, the store
  of plain arrays and objects, and the record of the compute functions invoked so far
  (the getter whose function was called, and the arguments), which the program does not
  keep and which is there to state which calls were made.
\<close>

record world =
  cachedGetters :: "int \<rightharpoonup> entry"
  heap :: store
  calls :: "(desc \<times> val list) list"

text \<open>The constructor (lines 34 to 48): an empty cache.\<close>

definition new_Evaluator :: "store \<Rightarrow> world" where
  "new_Evaluator st = \<lparr>cachedGetters = Map.empty, heap = st, calls = []\<rparr>"

text \<open>
  \<^verbatim>\<open>deref\<close> (lines 20 to 31).  \<^verbatim>\<open>isArray(val) || isObject(val)\<close> holds of a plain array
  or object, that is of a reference.
\<close>

fun isPlainComposite :: "val \<Rightarrow> bool" where
  "isPlainComposite (VRef a) = True"
| "isPlainComposite v = False"

definition deref :: "env \<Rightarrow> val \<Rightarrow> store \<Rightarrow> val \<times> store" where
  "deref E v st =
     (if isImmutable v then (v, st)
      else if isPlainComposite v then cloneDeep E v st
      else (v, st))"

text \<open>
  The test \<^verbatim>\<open>state && state.getIn\<close> of line 66.  An Immutable collection has the method.
  A primitive has no such property.  A plain object has it when it has a field of that
  name; the values of the model contain no function, so calling a truthy one is a
  \<^verbatim>\<open>TypeError\<close>.
\<close>

datatype getIn_test = GetInMethod | GetInAbsent | GetInNotCallable

fun state_getIn :: "store \<Rightarrow> val \<Rightarrow> getIn_test" where
  "state_getIn st (IMap kvs) = GetInMethod"
| "state_getIn st (IList xs) = GetInMethod"
| "state_getIn st (VRef a) =
     (if a < length st then
        (case st ! a of
           PArr xs \<Rightarrow> GetInAbsent
         | PObj fs \<Rightarrow>
             (case map_of fs ''getIn'' of
                None \<Rightarrow> GetInAbsent
              | Some v \<Rightarrow> if truthy v then GetInNotCallable else GetInAbsent))
      else GetInAbsent)"
| "state_getIn st v = GetInAbsent"

text \<open>
  \<^verbatim>\<open>state.hashCode()\<close> and \<^verbatim>\<open>state.has(code)\<close>: methods of the Immutable collections
  only; on any other state the call is a \<^verbatim>\<open>TypeError\<close>.
\<close>

definition state_hashCode :: "env \<Rightarrow> val \<Rightarrow> exn + int" where
  "state_hashCode E state =
     (if isImmutable state then Inr (imm_hashCode E state) else Inl TypeError)"

text \<open>
  \<^verbatim>\<open>__isCached\<close> (lines 160 to 166).  Every entry has the key \<^verbatim>\<open>value\<close>, so
  \<^verbatim>\<open>hasIn([code, 'value'])\<close> is the presence of the entry; \<^verbatim>\<open>&&\<close> calls
  \<^verbatim>\<open>state.hashCode()\<close> only then.
\<close>

definition isCached :: "env \<Rightarrow> world \<Rightarrow> val \<Rightarrow> desc \<Rightarrow> exn + bool" where
  "isCached E w state getter =
     (case cachedGetters w (hashCode E getter) of
        None \<Rightarrow> Inr False
      | Some e \<Rightarrow>
          (case state_hashCode E state of
             Inl x \<Rightarrow> Inl x
           | Inr h \<Rightarrow> Inr (stateHashCode e = VNum h)))"

text \<open>
  \<^verbatim>\<open>__hasStaleValue\<close> (lines 130 to 136).  As written it asks the state, not the cache:
  \<^verbatim>\<open>state.has(code) && state.getIn([code, 'stateHashCode']) !== state.hashCode()\<close>.
  The store is that of the call: \<^verbatim>\<open>getIn\<close> may step into a plain object.
\<close>

definition hasStaleValue :: "env \<Rightarrow> store \<Rightarrow> val \<Rightarrow> desc \<Rightarrow> exn + bool" where
  "hasStaleValue E st state getter =
     (let code = hashCode E getter in
      if isImmutable state then
        (if im_has state (VNum code) then
           (case getIn st state [VNum code, VStr ''stateHashCode''] of
              Inl x \<Rightarrow> Inl x
            | Inr v \<Rightarrow> Inr (v \<noteq> VNum (imm_hashCode E state)))
         else Inr False)
      else Inl TypeError)"

text \<open>\<^verbatim>\<open>__cacheValue\<close> (lines 145 to 152).\<close>

definition cacheValue :: "env \<Rightarrow> val \<Rightarrow> desc \<Rightarrow> val list \<Rightarrow> val \<Rightarrow> world \<Rightarrow> (exn + unit) \<times> world" where
  "cacheValue E state getter args v w =
     (case state_hashCode E state of
        Inl x \<Rightarrow> (Inl x, w)
      | Inr h \<Rightarrow>
          (Inr (),
           w\<lparr>cachedGetters := (cachedGetters w)(hashCode E getter \<mapsto>
                \<lparr>stateHashCode = VNum h, entry_value = v,
                 entry_args = toImmutable E (heap w) args\<rparr>)\<rparr>))"

text \<open>
  \<^verbatim>\<open>this.__cachedGetters.getIn([code, 'value'])\<close> (lines 93 and 96): \<^verbatim>\<open>undefined\<close> where
  there is no entry.
\<close>

definition cachedValue :: "world \<Rightarrow> int \<Rightarrow> val" where
  "cachedValue w code =
     (case cachedGetters w code of None \<Rightarrow> VUndefined | Some e \<Rightarrow> entry_value e)"

text \<open>
  Lines 77 to 88: with \<^verbatim>\<open>track\<close> and no entry, an entry of three \<^verbatim>\<open>null\<close>s is written
  and the getter is tracked; with an entry it is tracked; otherwise it is not.
\<close>

definition null_entry :: entry where
  "null_entry = \<lparr>stateHashCode = VNull, entry_value = VNull, entry_args = VNull\<rparr>"

definition startTracking :: "int \<Rightarrow> bool \<Rightarrow> world \<Rightarrow> bool \<times> world" where
  "startTracking code track w =
     (if track \<and> cachedGetters w code = None then
        (True, w\<lparr>cachedGetters := (cachedGetters w)(code \<mapsto> null_entry)\<rparr>)
      else if cachedGetters w code \<noteq> None then (True, w)
      else (False, w))"

text \<open>
  \<^verbatim>\<open>evaluate\<close> (lines 63 to 124), with \<^verbatim>\<open>deps.map(dep => this.evaluate(state, dep, track))\<close>
  as \<open>evaluate_deps\<close>: the dependencies from left to right, each in the state the one
  before left, stopping at the first that throws.

  In the branch of line 95 the first statement that can fail is line 99,
  \<^verbatim>\<open>toImmutable(getDeps(getter).every(...))\<close>: \<^verbatim>\<open>getter\<close> is bound neither in \<^verbatim>\<open>evaluate\<close>
  (whose parameter is \<^verbatim>\<open>keyPathOrGetter\<close>) nor in the module, so reading it throws a
  \<^verbatim>\<open>ReferenceError\<close>, and lines 103 to 109 are never reached.
\<close>

fun evaluate :: "env \<Rightarrow> val \<Rightarrow> desc \<Rightarrow> bool \<Rightarrow> world \<Rightarrow> (exn + val) \<times> world"
and evaluate_deps :: "env \<Rightarrow> val \<Rightarrow> desc list \<Rightarrow> bool \<Rightarrow> world \<Rightarrow> (exn + val list) \<times> world"
where
  "evaluate E state (KeyPath kp) track w =
     (case state_getIn (heap w) state of
        GetInMethod \<Rightarrow> (getIn (heap w) state kp, w)
      | GetInNotCallable \<Rightarrow> (Inl TypeError, w)
      | GetInAbsent \<Rightarrow> (Inr state, w))"
| "evaluate E state (NotDescriptor x) track w = (Inl InvalidArgument, w)"
| "evaluate E state (Getter deps f) track w =
     (case startTracking (hashCode E (Getter deps f)) track w of
        (isTracking, w1) \<Rightarrow>
          (case isCached E w1 state (Getter deps f) of
             Inl x \<Rightarrow> (Inl x, w1)
           | Inr hit \<Rightarrow>
               if hit then
                 (case deref E (cachedValue w1 (hashCode E (Getter deps f))) (heap w1) of
                    (v, st) \<Rightarrow> (Inr v, w1\<lparr>heap := st\<rparr>))
               else
                 (case hasStaleValue E (heap w1) state (Getter deps f) of
                    Inl x \<Rightarrow> (Inl x, w1)
                  | Inr stale \<Rightarrow>
                      if stale then (Inl ReferenceError, w1)
                      else
                        (case evaluate_deps E state deps track w1 of
                           (Inl x, w2) \<Rightarrow> (Inl x, w2)
                         | (Inr args, w2) \<Rightarrow>
                             (case computeFn E f args (heap w2) of
                                (res, st) \<Rightarrow>
                                  (let w3 = w2\<lparr>heap := st,
                                               calls := calls w2 @ [(Getter deps f, args)]\<rparr>
                                   in case res of
                                        Inl thrown \<Rightarrow> (Inl (Thrown thrown), w3)
                                      | Inr evaluatedValue \<Rightarrow>
                                          if isTracking then
                                            (case cacheValue E state (Getter deps f) args
                                                    evaluatedValue w3 of
                                               (Inl x, w4) \<Rightarrow> (Inl x, w4)
                                             | (Inr u, w4) \<Rightarrow> (Inr evaluatedValue, w4))
                                          else (Inr evaluatedValue, w3)))))))"
| "evaluate_deps E state [] track w = (Inr [], w)"
| "evaluate_deps E state (dep # deps) track w =
     (case evaluate E state dep track w of
        (Inl x, w1) \<Rightarrow> (Inl x, w1)
      | (Inr v, w1) \<Rightarrow>
          (case evaluate_deps E state deps track w1 of
             (Inl x, w2) \<Rightarrow> (Inl x, w2)
           | (Inr vs, w2) \<Rightarrow> (Inr (v # vs), w2)))"

text \<open>\<^verbatim>\<open>untrack\<close> (lines 172 to 176) and \<^verbatim>\<open>reset\<close> (lines 178 to 180).\<close>

definition untrack :: "env \<Rightarrow> desc \<Rightarrow> world \<Rightarrow> world" where
  "untrack E getter w = w\<lparr>cachedGetters := (cachedGetters w)(hashCode E getter := None)\<rparr>"

definition reset :: "world \<Rightarrow> world" where
  "reset w = w\<lparr>cachedGetters := Map.empty\<rparr>"

text \<open>
  The world lines 117 to 123 leave when the dependencies gave \<open>args\<close> in the world
  \<open>w2\<close> and the compute function returned \<open>v\<close> with the store \<open>st\<close>: the call is on
  record, and a tracked getter's entry holds the new triple.
\<close>

definition recomputed ::
  "env \<Rightarrow> val \<Rightarrow> desc \<Rightarrow> bool \<Rightarrow> val list \<Rightarrow> val \<Rightarrow> store \<Rightarrow> world \<Rightarrow> world" where
  "recomputed E state getter isTracking args v st w2 =
     (let w3 = w2\<lparr>heap := st, calls := calls w2 @ [(getter, args)]\<rparr>
      in if isTracking then
           w3\<lparr>cachedGetters := (cachedGetters w3)(hashCode E getter \<mapsto>
                \<lparr>stateHashCode = VNum (imm_hashCode E state), entry_value = v,
                 entry_args = toImmutable E st args\<rparr>)\<rparr>
         else w3)"

text \<open>
  The worlds in which the dependencies are evaluated, in order: the first in the given
  world, each next one in the world its predecessor left; the last element is the world
  after all of them.
\<close>

fun dep_worlds :: "env \<Rightarrow> val \<Rightarrow> desc list \<Rightarrow> bool \<Rightarrow> world \<Rightarrow> world list" where
  "dep_worlds E state [] track w = [w]"
| "dep_worlds E state (dep # deps) track w =
     w # dep_worlds E state deps track (snd (evaluate E state dep track w))"

text \<open>
  The descriptors of the spec's data model: a KeyPath, or a Getter each of whose
  dependencies is again one.
\<close>

fun isDescriptor :: "desc \<Rightarrow> bool" where
  "isDescriptor (KeyPath kp) = True"
| "isDescriptor (Getter deps f) = list_all isDescriptor deps"
| "isDescriptor (NotDescriptor x) = False"

text \<open>The fingerprints of the getters in a descriptor, itself included.\<close>

fun fingerprints :: "env \<Rightarrow> desc \<Rightarrow> int list" where
  "fingerprints E (KeyPath kp) = []"
| "fingerprints E (Getter deps f) =
     hashCode E (Getter deps f) # concat (map (fingerprints E) deps)"
| "fingerprints E (NotDescriptor x) = []"

section \<open>Concrete collaborators and inputs\<close>

text \<open>
  Modelled from the spec: \<^verbatim>\<open>cloneDeep\<close> of \<^verbatim>\<open>./utils\<close> is not in the source tree; the
  spec has it as the defensive deep copy of a plain value.  The copy follows references
  to plain arrays and objects and allocates a new one for each; Immutable collections
  and primitives are shared.  The recursion is bounded by the number of objects in the
  store, which is enough for every store without a cycle.
\<close>

fun cloneDeep_upto :: "nat \<Rightarrow> val \<Rightarrow> store \<Rightarrow> val \<times> store"
and cloneDeep_list :: "nat \<Rightarrow> val list \<Rightarrow> store \<Rightarrow> val list \<times> store"
where
  "cloneDeep_upto 0 v st = (v, st)"
| "cloneDeep_upto (Suc n) (VRef a) st =
     (if a < length st then
        (case st ! a of
           PArr xs \<Rightarrow>
             (case cloneDeep_list n xs st of (ys, st1) \<Rightarrow> alloc (PArr ys) st1)
         | PObj fs \<Rightarrow>
             (case cloneDeep_list n (map snd fs) st of
                (ys, st1) \<Rightarrow> alloc (PObj (zip (map fst fs) ys)) st1))
      else (VRef a, st))"
| "cloneDeep_upto (Suc n) v st = (v, st)"
| "cloneDeep_list n [] st = ([], st)"
| "cloneDeep_list n (x # xs) st =
     (case cloneDeep_upto n x st of
        (y, st1) \<Rightarrow> (case cloneDeep_list n xs st1 of (ys, st2) \<Rightarrow> (y # ys, st2)))"

definition plain_cloneDeep :: "val \<Rightarrow> store \<Rightarrow> val \<times> store" where
  "plain_cloneDeep v st = cloneDeep_upto (Suc (length st)) v st"

text \<open>
  Modelled from the spec: \<^verbatim>\<open>toImmutable\<close> of \<^verbatim>\<open>./immutable-helpers\<close> is not in the
  source tree; the spec has it freeze the sequence of argument values into an immutable
  sequence.  Plain arrays become lists and plain objects maps, to the same bound.
\<close>

fun fromJS_upto :: "nat \<Rightarrow> store \<Rightarrow> val \<Rightarrow> val" where
  "fromJS_upto 0 st v = v"
| "fromJS_upto (Suc n) st (VRef a) =
     (if a < length st then
        (case st ! a of
           PArr xs \<Rightarrow> IList (map (fromJS_upto n st) xs)
         | PObj fs \<Rightarrow> IMap (zip (map (VStr \<circ> fst) fs) (map (fromJS_upto n st \<circ> snd) fs)))
      else VRef a)"
| "fromJS_upto (Suc n) st v = v"

definition plain_toImmutable :: "store \<Rightarrow> val list \<Rightarrow> val" where
  "plain_toImmutable st args = IList (map (fromJS_upto (Suc (length st)) st) args)"

text \<open>
  Three state trees: \<open>stateA\<close> and \<open>stateB\<close> differ at the key \<^verbatim>\<open>b\<close> only, and \<open>stateC\<close>
  holds a numeric key.  The sample structural hash tells them apart.
\<close>

definition stateA :: val where
  "stateA = IMap [(VStr ''a'', VNum 1), (VStr ''b'', VNum 1)]"

definition stateB :: val where
  "stateB = IMap [(VStr ''a'', VNum 1), (VStr ''b'', VNum 2)]"

definition stateC :: val where
  "stateC = IMap [(VStr ''a'', VNum 1), (VNum 100, VStr ''x'')]"

definition sample_imm_hashCode :: "val \<Rightarrow> int" where
  "sample_imm_hashCode v =
     (if v = stateA then 11 else if v = stateB then 22 else if v = stateC then 33 else 0)"

text \<open>The sample fingerprint of a getter is read off its compute function.\<close>

fun sample_hashCode :: "desc \<Rightarrow> int" where
  "sample_hashCode (Getter deps f) = 100 + int f"
| "sample_hashCode d = 0"

text \<open>
  Three compute functions: number 0 is \<^verbatim>\<open>function (a) { return a }\<close>, number 1 is
  \<^verbatim>\<open>function () { throw 'boom' }\<close>, and every other number is
  \<^verbatim>\<open>function () { return Array.prototype.slice.call(arguments) }\<close>, which returns a new
  plain array of its arguments.
\<close>

definition sample_computeFn :: "nat \<Rightarrow> val list \<Rightarrow> store \<Rightarrow> (val + val) \<times> store" where
  "sample_computeFn n args st =
     (if n = 0 then (Inr (case args of [] \<Rightarrow> VUndefined | a # rest \<Rightarrow> a), st)
      else if n = 1 then (Inl (VStr ''boom''), st)
      else (case alloc (PArr args) st of (r, st1) \<Rightarrow> (Inr r, st1)))"

definition sample_env :: env where
  "sample_env =
     \<lparr>hashCode = sample_hashCode, imm_hashCode = sample_imm_hashCode,
      toImmutable = plain_toImmutable, cloneDeep = plain_cloneDeep,
      computeFn = sample_computeFn\<rparr>"

definition getterA :: desc where
  "getterA = Getter [KeyPath [VStr ''a'']] 0"

definition getterThrow :: desc where
  "getterThrow = Getter [KeyPath [VStr ''a'']] 1"

definition getterArray :: desc where
  "getterArray = Getter [KeyPath [VStr ''a'']] 2"

text \<open>A getter with a KeyPath and a nested getter as dependencies.\<close>

definition getterPair :: desc where
  "getterPair = Getter [KeyPath [VStr ''b''], getterA] 2"

section \<open>Facts about the evaluator\<close>

lemma startTracking_cases:
  "startTracking c track w =
     (track \<or> cachedGetters w c \<noteq> None,
      if track \<and> cachedGetters w c = None
      then w\<lparr>cachedGetters := (cachedGetters w)(c \<mapsto> null_entry)\<rparr> else w)"
  by (simp add: startTracking_def)

lemma startTracking_fields [simp]:
  "heap (snd (startTracking c track w)) = heap w"
  "calls (snd (startTracking c track w)) = calls w"
  "cachedGetters (snd (startTracking c track w)) c =
     (case cachedGetters w c of Some e \<Rightarrow> Some e
      | None \<Rightarrow> if track then Some null_entry else None)"
  "c' \<noteq> c \<Longrightarrow> cachedGetters (snd (startTracking c track w)) c' = cachedGetters w c'"
  by (auto simp: startTracking_def split: option.splits)

lemma cachedValue_Some [simp]:
  "cachedGetters w c = Some e \<Longrightarrow> cachedValue w c = entry_value e"
  by (simp add: cachedValue_def)

lemma recomputed_fields [simp]:
  "calls (recomputed E state g tr args v st w2) = calls w2 @ [(g, args)]"
  "heap (recomputed E state g tr args v st w2) = st"
  "cachedGetters (recomputed E state g tr args v st w2) =
     (if tr then (cachedGetters w2)(hashCode E g \<mapsto>
        \<lparr>stateHashCode = VNum (imm_hashCode E state), entry_value = v,
         entry_args = toImmutable E st args\<rparr>) else cachedGetters w2)"
  by (simp_all add: recomputed_def Let_def)

lemma nested_get_TypeError: "nested_get st v k = Inl x \<Longrightarrow> x = TypeError"
  by (cases v) (auto split: if_splits obj.splits option.splits)

lemma getIn_TypeError: "getIn st v ks = Inl x \<Longrightarrow> x = TypeError"
  by (induction ks arbitrary: v)
     (auto split: sum.splits option.splits dest: nested_get_TypeError)

lemma hasStaleValue_TypeError: "hasStaleValue E st state g = Inl x \<Longrightarrow> x = TypeError"
  by (auto simp: hasStaleValue_def Let_def simp del: getIn.simps split: if_splits sum.splits
        dest: getIn_TypeError)

lemma isCached_TypeError: "isCached E w state g = Inl x \<Longrightarrow> x = TypeError"
  by (auto simp: isCached_def state_hashCode_def split: option.splits if_splits)

lemma hasStaleValue_Inr: "hasStaleValue E st state g = Inr b \<Longrightarrow> isImmutable state"
  by (simp add: hasStaleValue_def Let_def split: if_splits)

lemma cacheValue_immutable:
  "isImmutable state \<Longrightarrow>
   cacheValue E state g args v w =
     (Inr (), w\<lparr>cachedGetters := (cachedGetters w)(hashCode E g \<mapsto>
        \<lparr>stateHashCode = VNum (imm_hashCode E state), entry_value = v,
         entry_args = toImmutable E (heap w) args\<rparr>)\<rparr>)"
  by (simp add: cacheValue_def state_hashCode_def)

text \<open>The getter case of \<open>evaluate\<close>, with the outcome of a recompute named.\<close>

lemma evaluate_Getter:
  "evaluate E state (Getter deps f) track w =
     (let c = hashCode E (Getter deps f); w1 = snd (startTracking c track w) in
      case isCached E w1 state (Getter deps f) of
        Inl x \<Rightarrow> (Inl x, w1)
      | Inr hit \<Rightarrow>
          if hit then
            (case deref E (cachedValue w1 c) (heap w) of
               (v, st) \<Rightarrow> (Inr v, w1\<lparr>heap := st\<rparr>))
          else
            (case hasStaleValue E (heap w) state (Getter deps f) of
               Inl x \<Rightarrow> (Inl x, w1)
             | Inr stale \<Rightarrow>
                 if stale then (Inl ReferenceError, w1)
                 else
                   (case evaluate_deps E state deps track w1 of
                      (Inl x, w2) \<Rightarrow> (Inl x, w2)
                    | (Inr args, w2) \<Rightarrow>
                        (case computeFn E f args (heap w2) of
                           (Inl thrown, st) \<Rightarrow>
                             (Inl (Thrown thrown),
                              w2\<lparr>heap := st, calls := calls w2 @ [(Getter deps f, args)]\<rparr>)
                         | (Inr v, st) \<Rightarrow>
                             (Inr v, recomputed E state (Getter deps f)
                                (track \<or> cachedGetters w c \<noteq> None) args v st w2)))))"
  by (auto simp: startTracking_cases Let_def recomputed_def cacheValue_immutable
        dest!: hasStaleValue_Inr split: sum.splits prod.splits)

lemma isCached_True:
  "isCached E w state g = Inr True \<longleftrightarrow>
     (\<exists>e. cachedGetters w (hashCode E g) = Some e \<and> isImmutable state \<and>
          stateHashCode e = VNum (imm_hashCode E state))"
  by (auto simp: isCached_def state_hashCode_def split: option.splits)

lemma isCached_startTracking_True:
  "isCached E (snd (startTracking (hashCode E g) track w)) state g = Inr True \<longleftrightarrow>
   isCached E w state g = Inr True"
  by (auto simp: isCached_True null_entry_def split: option.splits)

lemma startTracking_hit:
  "isCached E w state g = Inr True \<Longrightarrow> snd (startTracking (hashCode E g) track w) = w"
  by (auto simp: isCached_True startTracking_def)

text \<open>
  A getter's evaluation that returns a value is an exact hit on an entry recorded under
  the state's hash, or a recompute.
\<close>

lemma evaluate_Getter_value:
  assumes "evaluate E state (Getter deps f) track w = (Inr v, w')"
  shows "(\<exists>e st. cachedGetters w (hashCode E (Getter deps f)) = Some e \<and>
            isImmutable state \<and> stateHashCode e = VNum (imm_hashCode E state) \<and>
            deref E (entry_value e) (heap w) = (v, st) \<and> w' = w\<lparr>heap := st\<rparr>) \<or>
         (\<exists>args w2 st. isImmutable state \<and>
            isCached E w state (Getter deps f) = Inr False \<and>
            evaluate_deps E state deps track
              (snd (startTracking (hashCode E (Getter deps f)) track w)) = (Inr args, w2) \<and>
            computeFn E f args (heap w2) = (Inr v, st) \<and>
            w' = recomputed E state (Getter deps f)
                   (track \<or> cachedGetters w (hashCode E (Getter deps f)) \<noteq> None) args v st w2)"
proof -
  let ?g = "Getter deps f"
  let ?c = "hashCode E ?g"
  let ?w1 = "snd (startTracking ?c track w)"
  note ev = assms [unfolded evaluate_Getter Let_def]
  show ?thesis
  proof (cases "isCached E ?w1 state ?g")
    case (Inl x)
    with ev show ?thesis by simp
  next
    case (Inr hit)
    show ?thesis
    proof (cases hit)
      case True
      with Inr have h: "isCached E w state ?g = Inr True"
        by (simp add: isCached_startTracking_True)
      then obtain e where e: "cachedGetters w ?c = Some e" "isImmutable state"
          "stateHashCode e = VNum (imm_hashCode E state)"
        by (auto simp: isCached_True)
      from h have w1: "?w1 = w" by (rule startTracking_hit)
      from ev Inr True w1 e show ?thesis
        by (auto split: prod.splits)
    next
      case False
      with Inr have miss: "isCached E ?w1 state ?g = Inr False" by simp
      show ?thesis
      proof (cases "hasStaleValue E (heap w) state ?g")
        case (Inl x)
        with ev miss show ?thesis by simp
      next
        case (Inr stale)
        then have imm: "isImmutable state" by (rule hasStaleValue_Inr)
        from miss imm have miss': "isCached E w state ?g = Inr False"
          by (auto simp: isCached_def state_hashCode_def null_entry_def
                split: option.splits if_splits)
        from ev miss Inr imm miss' show ?thesis
          by (auto split: if_splits prod.splits sum.splits)
      qed
    qed
  qed
qed

text \<open>
  The compute functions a call invokes are those of the getters inside the descriptor:
  the record of calls grows at its end only, and by getters no larger than the one
  evaluated.
\<close>

lemma calls_extend:
  "\<exists>new. calls (snd (evaluate E s d t w)) = calls w @ new \<and>
         (\<forall>x\<in>set new. size (fst x) \<le> size d)"
  "\<exists>new. calls (snd (evaluate_deps E s ds t w)) = calls w @ new \<and>
         (\<forall>x\<in>set new. size (fst x) < Suc (size_list size ds))"
proof (induction E s d t w and E s ds t w rule: evaluate_evaluate_deps.induct)
  case (1 E state kp track w)
  then show ?case by (simp split: getIn_test.splits)
next
  case (2 E state x track w)
  then show ?case by simp
next
  case (3 E state deps f track w)
  let ?g = "Getter deps f"
  let ?c = "hashCode E ?g"
  let ?w1 = "snd (startTracking ?c track w)"
  show ?case
  proof (cases "isCached E ?w1 state ?g = Inr False \<and> hasStaleValue E (heap w) state ?g = Inr False")
    case False
    then show ?thesis
      by (auto simp only: evaluate_Getter Let_def split: sum.splits prod.splits if_splits) auto
  next
    case True
    then have "\<exists>new. calls (snd (evaluate_deps E state deps track ?w1)) = calls ?w1 @ new \<and>
         (\<forall>x\<in>set new. size (fst x) < Suc (size_list size deps))"
      using "3.IH" [of "fst (startTracking ?c track w)" ?w1 False False] by simp
    then obtain new where new: "calls (snd (evaluate_deps E state deps track ?w1)) = calls w @ new"
        "\<forall>x\<in>set new. size (fst x) < Suc (size_list size deps)"
      by auto
    show ?thesis
    proof (cases "evaluate_deps E state deps track ?w1")
      case (Pair r w2)
      with new have w2: "calls w2 = calls w @ new" by simp
      show ?thesis
      proof (cases r)
        case (Inl x)
        with True Pair w2 new show ?thesis
          by (simp only: evaluate_Getter Let_def) (auto intro!: exI [of _ new])
      next
        case (Inr args)
        with True Pair w2 new show ?thesis
          by (simp only: evaluate_Getter Let_def)
             (auto split: prod.splits sum.splits
                intro!: exI [of _ "new @ [(Getter deps f, args)]"])
      qed
    qed
  qed
next
  case (4 E state track w)
  then show ?case by simp
next
  case (5 E state dep deps track w)
  obtain r w1 where ev: "evaluate E state dep track w = (r, w1)" by (cases "evaluate E state dep track w")
  from "5.IH"(1) ev obtain new1 where new1: "calls w1 = calls w @ new1"
     "\<forall>x\<in>set new1. size (fst x) \<le> size dep" by auto
  show ?case
  proof (cases r)
    case (Inl x)
    with ev new1 show ?thesis by (auto intro!: exI [of _ new1])
  next
    case (Inr v)
    from "5.IH"(2) [OF ev [symmetric] Inr] obtain new2 where
      new2: "calls (snd (evaluate_deps E state deps track w1)) = calls w1 @ new2"
        "\<forall>x\<in>set new2. size (fst x) < Suc (size_list size deps)" by auto
    with ev Inr new1 show ?thesis
      by (auto split: prod.splits sum.splits intro!: exI [of _ "new1 @ new2"]) force+
  qed
qed

text \<open>
  The error of line 73 comes from a value that is no descriptor, and an evaluation
  writes to the cache at the fingerprints of the getters it meets only.
\<close>

lemma no_InvalidArgument:
  "isDescriptor d \<Longrightarrow> fst (evaluate E s d t w) \<noteq> Inl InvalidArgument"
  "list_all isDescriptor ds \<Longrightarrow> fst (evaluate_deps E s ds t w) \<noteq> Inl InvalidArgument"
proof (induction E s d t w and E s ds t w rule: evaluate_evaluate_deps.induct)
  case (1 E state kp track w)
  then show ?case by (auto split: getIn_test.splits dest: getIn_TypeError)
next
  case (2 E state x track w)
  then show ?case by simp
next
  case (3 E state deps f track w)
  let ?g = "Getter deps f"
  let ?c = "hashCode E ?g"
  let ?w1 = "snd (startTracking ?c track w)"
  from "3.prems" have wf: "list_all isDescriptor deps" by simp
  show ?case
  proof (cases "isCached E ?w1 state ?g = Inr False \<and> hasStaleValue E (heap w) state ?g = Inr False")
    case False
    then show ?thesis
      by (auto simp only: evaluate_Getter Let_def split: sum.splits prod.splits if_splits)
         (auto dest: isCached_TypeError hasStaleValue_TypeError)
  next
    case True
    then have "fst (evaluate_deps E state deps track ?w1) \<noteq> Inl InvalidArgument"
      using "3.IH" [of "fst (startTracking ?c track w)" ?w1 False False] wf by simp
    with True show ?thesis
      by (simp only: evaluate_Getter Let_def) (auto split: prod.splits sum.splits)
  qed
next
  case (4 E state track w)
  then show ?case by simp
next
  case (5 E state dep deps track w)
  obtain r w1 where ev: "evaluate E state dep track w = (r, w1)" by (cases "evaluate E state dep track w")
  from "5.prems" have wf: "isDescriptor dep" "list_all isDescriptor deps" by simp_all
  from "5.IH"(1) [OF wf(1)] ev have r: "r \<noteq> Inl InvalidArgument" by simp
  show ?case
  proof (cases r)
    case (Inl x)
    with ev r show ?thesis by auto
  next
    case (Inr v)
    from "5.IH"(2) [OF ev [symmetric] Inr wf(2)] ev Inr show ?thesis
      by (auto split: prod.splits sum.splits)
  qed
qed

lemma cache_frame:
  "c \<notin> set (fingerprints E d) \<Longrightarrow>
     cachedGetters (snd (evaluate E s d t w)) c = cachedGetters w c"
  "c \<notin> set (concat (map (fingerprints E) ds)) \<Longrightarrow>
     cachedGetters (snd (evaluate_deps E s ds t w)) c = cachedGetters w c"
proof (induction E s d t w and E s ds t w rule: evaluate_evaluate_deps.induct)
  case (1 E state kp track w)
  then show ?case by (simp split: getIn_test.splits)
next
  case (2 E state x track w)
  then show ?case by simp
next
  case (3 E state deps f track w)
  let ?g = "Getter deps f"
  let ?c = "hashCode E ?g"
  let ?w1 = "snd (startTracking ?c track w)"
  from "3.prems" have c: "c \<noteq> ?c" "c \<notin> set (concat (map (fingerprints E) deps))" by auto
  have w1: "cachedGetters ?w1 c = cachedGetters w c" using c(1) by simp
  show ?case
  proof (cases "isCached E ?w1 state ?g = Inr False \<and> hasStaleValue E (heap w) state ?g = Inr False")
    case False
    with w1 show ?thesis
      by (auto simp only: evaluate_Getter Let_def split: sum.splits prod.splits if_splits) auto
  next
    case True
    then have "cachedGetters (snd (evaluate_deps E state deps track ?w1)) c = cachedGetters ?w1 c"
      using "3.IH" [of "fst (startTracking ?c track w)" ?w1 False False] c(2) by simp
    with True w1 c(1) show ?thesis
      by (simp only: evaluate_Getter Let_def) (auto split: prod.splits sum.splits)
  qed
next
  case (4 E state track w)
  then show ?case by simp
next
  case (5 E state dep deps track w)
  obtain r w1 where ev: "evaluate E state dep track w = (r, w1)" by (cases "evaluate E state dep track w")
  from "5.prems" have c: "c \<notin> set (fingerprints E dep)"
     "c \<notin> set (concat (map (fingerprints E) deps))" by auto
  from "5.IH"(1) [OF c(1)] ev have w1: "cachedGetters w1 c = cachedGetters w c" by simp
  show ?case
  proof (cases r)
    case (Inl x)
    with ev w1 show ?thesis by auto
  next
    case (Inr v)
    from "5.IH"(2) [OF ev [symmetric] Inr c(2)] ev Inr w1 show ?thesis
      by (auto split: prod.splits sum.splits)
  qed
qed

text \<open>The recompute path, entered when neither the hit nor the stale test holds.\<close>

lemma evaluate_Getter_miss:
  assumes "isCached E (snd (startTracking (hashCode E (Getter deps f)) track w)) state
             (Getter deps f) = Inr False"
    and "hasStaleValue E (heap w) state (Getter deps f) = Inr False"
    and "evaluate_deps E state deps track
           (snd (startTracking (hashCode E (Getter deps f)) track w)) = (Inr args, w2)"
    and "computeFn E f args (heap w2) = (Inr v, st)"
  shows "evaluate E state (Getter deps f) track w =
           (Inr v, recomputed E state (Getter deps f)
              (track \<or> cachedGetters w (hashCode E (Getter deps f)) \<noteq> None) args v st w2)"
  using assms by (simp add: evaluate_Getter Let_def del: evaluate.simps)

lemma isCached_no_entry:
  "isImmutable state \<Longrightarrow> cachedGetters w (hashCode E g) = None \<Longrightarrow>
   isCached E (snd (startTracking (hashCode E g) track w)) state g = Inr False"
  by (simp add: isCached_def state_hashCode_def null_entry_def)

lemma isCached_stale_entry:
  "isImmutable state \<Longrightarrow> cachedGetters w (hashCode E g) = Some e \<Longrightarrow>
   stateHashCode e \<noteq> VNum (imm_hashCode E state) \<Longrightarrow>
   isCached E (snd (startTracking (hashCode E g) track w)) state g = Inr False"
  by (simp add: isCached_def state_hashCode_def)

text \<open>
  \<open>evaluate_deps\<close> evaluates every dependency, in the order of the list, each in the
  world the one before it left.
\<close>

lemma evaluate_deps_in_order:
  "evaluate_deps E s ds t w = (Inr args, w2) \<Longrightarrow>
   length args = length ds \<and>
   (\<forall>i<length ds. evaluate E s (ds ! i) t (dep_worlds E s ds t w ! i) =
        (Inr (args ! i), dep_worlds E s ds t w ! Suc i)) \<and>
   length (dep_worlds E s ds t w) = Suc (length ds) \<and>
   last (dep_worlds E s ds t w) = w2"
proof (induction ds arbitrary: w args)
  case Nil
  then show ?case by simp
next
  case (Cons d ds)
  obtain r w1 where ev: "evaluate E s d t w = (r, w1)" by (cases "evaluate E s d t w")
  with Cons.prems obtain v where r: "r = Inr v" by (cases r) auto
  obtain r' w' where evs: "evaluate_deps E s ds t w1 = (r', w')"
    by (cases "evaluate_deps E s ds t w1")
  with Cons.prems ev r obtain vs where r': "r' = Inr vs" "args = v # vs" "w' = w2"
    by (cases r') auto
  from Cons.IH [of w1 vs] evs r' have IH:
    "length vs = length ds"
    "\<forall>i<length ds. evaluate E s (ds ! i) t (dep_worlds E s ds t w1 ! i) =
        (Inr (vs ! i), dep_worlds E s ds t w1 ! Suc i)"
    "length (dep_worlds E s ds t w1) = Suc (length ds)"
    "last (dep_worlds E s ds t w1) = w2"
    by simp_all
  have hd: "dep_worlds E s ds t w1 ! 0 = w1" by (cases ds) simp_all
  have "evaluate E s ((d # ds) ! i) t (dep_worlds E s (d # ds) t w ! i) =
        (Inr (args ! i), dep_worlds E s (d # ds) t w ! Suc i)" if "i < length (d # ds)" for i
  proof (cases i)
    case 0
    with ev r r' hd show ?thesis by simp
  next
    case (Suc j)
    with that IH(2) ev r' show ?thesis by simp
  qed
  moreover have "dep_worlds E s ds t w1 \<noteq> []" using IH(3) by auto
  ultimately show ?case using IH ev r' by simp
qed

text \<open>With no entry for the fingerprint, a value can only come from a recompute.\<close>

lemma evaluate_no_entry_value:
  assumes "cachedGetters w (hashCode E (Getter deps f)) = None"
    and "evaluate E state (Getter deps f) track w = (Inr v, w')"
  shows "\<exists>args w2 st.
           evaluate_deps E state deps track
             (snd (startTracking (hashCode E (Getter deps f)) track w)) = (Inr args, w2) \<and>
           computeFn E f args (heap w2) = (Inr v, st) \<and>
           w' = recomputed E state (Getter deps f) track args v st w2"
  using evaluate_Getter_value [OF assms(2)] assms(1) by auto

lemma evaluate_no_entry_recompute:
  assumes "cachedGetters w (hashCode E (Getter deps f)) = None"
    and "hasStaleValue E (heap w) state (Getter deps f) = Inr False"
    and "evaluate_deps E state deps track
           (snd (startTracking (hashCode E (Getter deps f)) track w)) = (Inr args, w2)"
    and "computeFn E f args (heap w2) = (Inr v, st)"
  shows "evaluate E state (Getter deps f) track w =
           (Inr v, recomputed E state (Getter deps f) track args v st w2)"
proof -
  from assms(2) have "isImmutable state" by (rule hasStaleValue_Inr)
  from evaluate_Getter_miss [OF isCached_no_entry [OF this assms(1)] assms(2,3,4)] assms(1)
  show ?thesis by simp
qed

text \<open>The exact hit: the entry's value, dereferenced; nothing else changes.\<close>

lemma evaluate_hit:
  assumes "cachedGetters w (hashCode E (Getter deps f)) = Some e"
    and "state_hashCode E state = Inr h"
    and "stateHashCode e = VNum h"
  shows "evaluate E state (Getter deps f) track w =
           (case deref E (entry_value e) (heap w) of (v, st) \<Rightarrow> (Inr v, w\<lparr>heap := st\<rparr>))"
proof -
  from assms have "isCached E w state (Getter deps f) = Inr True"
    by (simp add: isCached_def)
  moreover from assms(1) have "snd (startTracking (hashCode E (Getter deps f)) track w) = w"
    by (simp add: startTracking_def)
  ultimately show ?thesis using assms(1)
    by (simp add: evaluate_Getter Let_def del: evaluate.simps)
qed

lemma deref_not_plain: "\<not> isPlainComposite v \<Longrightarrow> deref E v st = (v, st)"
  by (simp add: deref_def)

lemma with_snd: "fst p = a \<Longrightarrow> p = (a, snd p)"
  by (cases p) simp

text \<open>The definitions that a run on the concrete inputs unfolds.\<close>

lemmas sample_defs = sample_env_def stateA_def stateB_def stateC_def getterA_def getterThrow_def
  getterArray_def new_Evaluator_def sample_imm_hashCode_def sample_computeFn_def
  startTracking_def isCached_def hasStaleValue_def state_hashCode_def cacheValue_def
  deref_def cachedValue_def null_entry_def im_has_def array_index_def digit_val_def alloc_def plain_cloneDeep_def plain_toImmutable_def Let_def

section \<open>KeyPaths\<close>

lemma primitive_no_getIn:
  "\<not> isImmutable state \<Longrightarrow> \<not> isPlainComposite state \<Longrightarrow> state_getIn st state = GetInAbsent"
  by (cases state) simp_all

lemma state_getIn_Method: "state_getIn st state = GetInMethod \<longleftrightarrow> isImmutable state"
  by (cases state) (auto split: obj.splits option.splits)

lemma state_getIn_NotCallable:
  "state_getIn st state = GetInNotCallable \<longleftrightarrow>
     (\<exists>a fs v. state = VRef a \<and> a < length st \<and> st ! a = PObj fs \<and>
        map_of fs ''getIn'' = Some v \<and> truthy v)"
  by (cases state) (auto split: obj.splits option.splits)

text \<open>
  Claim C5 fails on the code as stated.  A plain object whose field \<^verbatim>\<open>getIn\<close> is truthy
  passes the test of line 66, and line 67 calls what is no function: the call ends with
  a \<^verbatim>\<open>TypeError\<close>, neither with the state nor with a value found in it.  On a tree,
  \<^verbatim>\<open>getIn\<close> itself ends so when the path steps into a plain object whose field \<^verbatim>\<open>get\<close>
  is truthy.
\<close>

theorem getIn_field_not_callable:
  "\<not> isImmutable (VRef 0) \<and>
   evaluate sample_env (VRef 0) (KeyPath [VStr ''a'']) True
     (new_Evaluator [PObj [(''getIn'', VNum 1)]]) =
     (Inl TypeError, new_Evaluator [PObj [(''getIn'', VNum 1)]]) \<and>
   isImmutable (IMap [(VStr ''x'', VRef 0)]) \<and>
   evaluate sample_env (IMap [(VStr ''x'', VRef 0)]) (KeyPath [VStr ''x'', VStr ''y'']) True
     (new_Evaluator [PObj [(''get'', VNum 1)]]) =
     (Inl TypeError, new_Evaluator [PObj [(''get'', VNum 1)]])"
  by (simp add: new_Evaluator_def)

text \<open>
  Claim C5, amended.  Evaluating a KeyPath gives, on an Immutable collection, what
  \<^verbatim>\<open>state.getIn(path)\<close> gives: the value found at the path, \<^verbatim>\<open>undefined\<close> where the path
  leaves the tree, or the \<^verbatim>\<open>TypeError\<close> of a step into a plain object with a truthy
  field \<^verbatim>\<open>get\<close>.  On a state without a truthy \<^verbatim>\<open>getIn\<close> (every primitive, a plain
  array, a plain object without that field) it gives the state itself, unchanged.  On
  the remaining states, the plain objects with a truthy field \<^verbatim>\<open>getIn\<close>, it ends with a
  \<^verbatim>\<open>TypeError\<close>.  In every case the world, and so the cache, is left as it was: no
  entry is created.
\<close>

theorem evaluate_KeyPath:
  "(isImmutable state \<longrightarrow>
      evaluate E state (KeyPath kp) track w = (getIn (heap w) state kp, w)) \<and>
   (state_getIn (heap w) state = GetInAbsent \<longrightarrow>
      evaluate E state (KeyPath kp) track w = (Inr state, w)) \<and>
   (\<not> isImmutable state \<and> \<not> isPlainComposite state \<longrightarrow>
      evaluate E state (KeyPath kp) track w = (Inr state, w)) \<and>
   (state_getIn (heap w) state = GetInNotCallable \<longrightarrow>
      evaluate E state (KeyPath kp) track w = (Inl TypeError, w)) \<and>
   (state_getIn (heap w) state = GetInMethod \<longleftrightarrow> isImmutable state) \<and>
   (state_getIn (heap w) state = GetInNotCallable \<longleftrightarrow>
      (\<exists>a fs v. state = VRef a \<and> a < length (heap w) \<and> heap w ! a = PObj fs \<and>
         map_of fs ''getIn'' = Some v \<and> truthy v)) \<and>
   snd (evaluate E state (KeyPath kp) track w) = w"
proof -
  have "isImmutable state \<Longrightarrow> state_getIn (heap w) state = GetInMethod"
    by (simp add: state_getIn_Method)
  then show ?thesis
    using state_getIn_NotCallable [of "heap w" state] state_getIn_Method [of "heap w" state]
    by (auto simp: primitive_no_getIn split: getIn_test.splits)
qed

theorem evaluate_KeyPath_witness:
  "evaluate sample_env stateA (KeyPath [VStr ''b'']) True (new_Evaluator []) =
     (Inr (VNum 1), new_Evaluator []) \<and>
   evaluate sample_env (IMap [(VStr ''x'', IList [VNum 7, VNum 8])]) (KeyPath [VStr ''x'', VNum 1])
     False (new_Evaluator []) = (Inr (VNum 8), new_Evaluator []) \<and>
   evaluate sample_env (IMap [(VStr ''x'', IList [VNum 7, VNum 8])])
     (KeyPath [VStr ''x'', VStr ''1'']) False (new_Evaluator []) =
     (Inr (VNum 8), new_Evaluator []) \<and>
   evaluate sample_env (IMap [(VStr ''x'', IList [VNum 7, VNum 8])])
     (KeyPath [VStr ''x'', VStr ''01'']) False (new_Evaluator []) =
     (Inr VUndefined, new_Evaluator []) \<and>
   evaluate sample_env (VNum 5) (KeyPath [VStr ''b'']) True (new_Evaluator []) =
     (Inr (VNum 5), new_Evaluator []) \<and>
   evaluate sample_env (VRef 0) (KeyPath [VStr ''b'']) True (new_Evaluator [PArr [VNum 1]]) =
     (Inr (VRef 0), new_Evaluator [PArr [VNum 1]]) \<and>
   evaluate sample_env (VRef 0) (KeyPath [VStr ''b'']) True
     (new_Evaluator [PObj [(''getIn'', VNum 1)]]) =
     (Inl TypeError, new_Evaluator [PObj [(''getIn'', VNum 1)]])"
  using evaluate_KeyPath [of stateA sample_env "[VStr ''b'']" True "new_Evaluator []"]
    evaluate_KeyPath [of "IMap [(VStr ''x'', IList [VNum 7, VNum 8])]" sample_env
      "[VStr ''x'', VNum 1]" False "new_Evaluator []"]
    evaluate_KeyPath [of "IMap [(VStr ''x'', IList [VNum 7, VNum 8])]" sample_env
      "[VStr ''x'', VStr ''1'']" False "new_Evaluator []"]
    evaluate_KeyPath [of "IMap [(VStr ''x'', IList [VNum 7, VNum 8])]" sample_env
      "[VStr ''x'', VStr ''01'']" False "new_Evaluator []"]
    evaluate_KeyPath [of "VNum 5" sample_env "[VStr ''b'']" True "new_Evaluator []"]
    evaluate_KeyPath [of "VRef 0" sample_env "[VStr ''b'']" True "new_Evaluator [PArr [VNum 1]]"]
    evaluate_KeyPath [of "VRef 0" sample_env "[VStr ''b'']" True
      "new_Evaluator [PObj [(''getIn'', VNum 1)]]"]
  by (simp add: stateA_def new_Evaluator_def array_index_def digit_val_def)

section \<open>Arguments that are no descriptor\<close>

text \<open>
  A getter ends with the error of line 73 only when the evaluation of its dependencies
  did: the error is that of a nested call, raised before the getter's own compute
  function is invoked.
\<close>

lemma InvalidArgument_from_deps:
  assumes "evaluate E state (Getter deps f) track w = (Inl InvalidArgument, w')"
  shows "evaluate_deps E state deps track
           (snd (startTracking (hashCode E (Getter deps f)) track w)) =
         (Inl InvalidArgument, w')"
  using assms
  by (auto simp: evaluate_Getter Let_def simp del: evaluate.simps
        split: sum.splits if_splits prod.splits
        dest: isCached_TypeError hasStaleValue_TypeError)

text \<open>
  Claim C6 fails on the code as stated.  A getter one of whose dependencies is neither a
  KeyPath nor a Getter is a Getter for the test of line 72; the nested call of line 115
  raises the invalid-argument error, and the entry of three \<^verbatim>\<open>null\<close>s written before is
  left in the cache.
\<close>

theorem malformed_dependency_raises:
  "fst (evaluate sample_env stateA (Getter [NotDescriptor (VNum 42)] 0) True (new_Evaluator [])) =
     Inl InvalidArgument \<and>
   cachedGetters (new_Evaluator []) 100 = None \<and>
   cachedGetters
     (snd (evaluate sample_env stateA (Getter [NotDescriptor (VNum 42)] 0) True
        (new_Evaluator []))) 100 =
     Some \<lparr>stateHashCode = VNull, entry_value = VNull, entry_args = VNull\<rparr>"
  by (simp add: sample_defs)

text \<open>
  Claim C6, amended.  Given a value that is neither a KeyPath nor a Getter, \<open>evaluate\<close>
  raises the invalid-argument error at once and leaves the cache (the whole world)
  unchanged.  A KeyPath never raises it, and neither does a Getter whose dependencies
  are, at every depth, KeyPaths or Getters.  A Getter that raises it has a dependency
  that, at some depth, is neither; the error is that of the evaluation of its
  dependencies, in the world they left, and the getter's own compute function has not
  been invoked.
\<close>

theorem invalid_argument:
  "evaluate E state (NotDescriptor x) track w = (Inl InvalidArgument, w) \<and>
   fst (evaluate E state (KeyPath kp) track w) \<noteq> Inl InvalidArgument \<and>
   (isDescriptor d \<longrightarrow> fst (evaluate E state d track w) \<noteq> Inl InvalidArgument) \<and>
   (\<forall>w'. evaluate E state (Getter deps f) track w = (Inl InvalidArgument, w') \<longrightarrow>
      \<not> list_all isDescriptor deps \<and>
      evaluate_deps E state deps track
        (snd (startTracking (hashCode E (Getter deps f)) track w)) =
        (Inl InvalidArgument, w') \<and>
      filter (\<lambda>c. fst c = Getter deps f) (calls w') =
        filter (\<lambda>c. fst c = Getter deps f) (calls w))"
proof -
  have kp: "fst (evaluate E state (KeyPath kp) track w) \<noteq> Inl InvalidArgument"
    using no_InvalidArgument(1) [of "KeyPath kp" E state track w] by simp
  have "\<not> list_all isDescriptor deps \<and>
      evaluate_deps E state deps track
        (snd (startTracking (hashCode E (Getter deps f)) track w)) =
        (Inl InvalidArgument, w') \<and>
      filter (\<lambda>c. fst c = Getter deps f) (calls w') =
        filter (\<lambda>c. fst c = Getter deps f) (calls w)"
    if ev: "evaluate E state (Getter deps f) track w = (Inl InvalidArgument, w')" for w'
  proof -
    let ?w1 = "snd (startTracking (hashCode E (Getter deps f)) track w)"
    from ev have bad: "\<not> isDescriptor (Getter deps f)"
      using no_InvalidArgument(1) [of "Getter deps f" E state track w] by auto
    from InvalidArgument_from_deps [OF ev]
    have deps: "evaluate_deps E state deps track ?w1 = (Inl InvalidArgument, w')" .
    from calls_extend(2) [of E state deps track ?w1] deps
    obtain new where new: "calls w' = calls w @ new"
        "\<forall>x\<in>set new. size (fst x) < Suc (size_list size deps)"
      by auto
    have "filter (\<lambda>c. fst c = Getter deps f) new = []"
      using new(2) by (auto simp: filter_empty_conv)
    with new(1) bad deps show ?thesis by simp
  qed
  with kp show ?thesis by (simp add: no_InvalidArgument)
qed

theorem invalid_argument_witness:
  "evaluate sample_env stateA (NotDescriptor (VNum 42)) True (new_Evaluator []) =
     (Inl InvalidArgument, new_Evaluator []) \<and>
   isDescriptor getterA \<and>
   fst (evaluate sample_env stateA getterA True (new_Evaluator [])) \<noteq> Inl InvalidArgument \<and>
   isDescriptor getterPair \<and>
   fst (evaluate sample_env stateA getterPair True (new_Evaluator [])) \<noteq> Inl InvalidArgument \<and>
   fst (evaluate sample_env stateA (KeyPath [VStr ''a'']) True (new_Evaluator [])) \<noteq>
     Inl InvalidArgument \<and>
   fst (evaluate sample_env stateA (Getter [getterA, NotDescriptor (VNum 42)] 2) True
          (new_Evaluator [])) = Inl InvalidArgument \<and>
   \<not> list_all isDescriptor [getterA, NotDescriptor (VNum 42)] \<and>
   calls (snd (evaluate sample_env stateA (Getter [getterA, NotDescriptor (VNum 42)] 2) True
          (new_Evaluator []))) = [(getterA, [VNum 1])]"
proof -
  let ?bad = "[getterA, NotDescriptor (VNum 42)]"
  let ?w = "new_Evaluator []"
  note T = invalid_argument [of sample_env stateA "VNum 42" True ?w "[VStr ''a'']" _ ?bad 2]
  have e: "fst (evaluate sample_env stateA (Getter ?bad 2) True ?w) = Inl InvalidArgument"
    by (simp add: sample_defs)
  have c: "calls (snd (evaluate sample_env stateA (Getter ?bad 2) True ?w)) =
             [(getterA, [VNum 1])]"
    by (simp add: sample_defs)
  have dA: "isDescriptor getterA" by (simp add: getterA_def)
  have dP: "isDescriptor getterPair" by (simp add: getterPair_def getterA_def)
  from T [of getterA] have 1: "evaluate sample_env stateA (NotDescriptor (VNum 42)) True ?w =
     (Inl InvalidArgument, ?w)"
    by blast
  from T [of getterA] dA
  have 2: "fst (evaluate sample_env stateA getterA True ?w) \<noteq> Inl InvalidArgument"
    by blast
  from T [of getterPair] dP
  have 3: "fst (evaluate sample_env stateA getterPair True ?w) \<noteq> Inl InvalidArgument"
    by blast
  from T [of getterA]
  have 4: "fst (evaluate sample_env stateA (KeyPath [VStr ''a'']) True ?w) \<noteq>
             Inl InvalidArgument"
    by blast
  from T [of getterA] with_snd [OF e]
  have 5: "\<not> list_all isDescriptor ?bad" by blast
  from 1 2 3 4 5 dA dP e c show ?thesis by blast
qed

section \<open>Getters\<close>

text \<open>
  Claim C4.  A getter evaluated with \<open>track\<close> twice in succession, against states with
  the same structural hash: the second call is an exact hit, which returns the cached
  value dereferenced, invokes no compute function and leaves cache and call record as
  they were; the value the first call returned is that cached value or its dereference,
  so the two results are the same value unless it is a plain array or object, of which
  the second call returns the copy; and over both calls the getter's compute function is
  invoked at most once.
\<close>

theorem evaluate_twice_same_hash:
  assumes "evaluate E s (Getter deps f) True w = (Inr v1, w1)"
    and "state_hashCode E s' = state_hashCode E s"
  shows "\<exists>e v2 st2.
      cachedGetters w1 (hashCode E (Getter deps f)) = Some e \<and>
      deref E (entry_value e) (heap w1) = (v2, st2) \<and>
      evaluate E s' (Getter deps f) True w1 = (Inr v2, w1\<lparr>heap := st2\<rparr>) \<and>
      (v1 = entry_value e \<or> (\<exists>st. deref E (entry_value e) (heap w) = (v1, st))) \<and>
      (\<not> isPlainComposite (entry_value e) \<longrightarrow> v2 = v1) \<and>
      length (filter (\<lambda>x. fst x = Getter deps f) (calls w1)) \<le>
        Suc (length (filter (\<lambda>x. fst x = Getter deps f) (calls w)))"
proof -
  let ?g = "Getter deps f"
  let ?c = "hashCode E ?g"
  from evaluate_Getter_value [OF assms(1)]
  consider
    (hit) e st where "cachedGetters w ?c = Some e" "isImmutable s"
      "stateHashCode e = VNum (imm_hashCode E s)"
      "deref E (entry_value e) (heap w) = (v1, st)" "w1 = w\<lparr>heap := st\<rparr>"
  | (miss) args w2 st where "isImmutable s"
      "evaluate_deps E s deps True (snd (startTracking ?c True w)) = (Inr args, w2)"
      "computeFn E f args (heap w2) = (Inr v1, st)"
      "w1 = recomputed E s ?g True args v1 st w2"
    by auto
  then show ?thesis
  proof cases
    case hit
    from hit(2) assms(2) have h: "state_hashCode E s' = Inr (imm_hashCode E s)"
      by (simp add: state_hashCode_def)
    obtain v2 st2 where d: "deref E (entry_value e) (heap w1) = (v2, st2)"
      by (cases "deref E (entry_value e) (heap w1)")
    from hit(1,5) have e: "cachedGetters w1 ?c = Some e" by simp
    from evaluate_hit [OF e h hit(3), of True] d
    have "evaluate E s' ?g True w1 = (Inr v2, w1\<lparr>heap := st2\<rparr>)" by simp
    moreover have "\<not> isPlainComposite (entry_value e) \<Longrightarrow> v2 = v1"
      using d hit(4) by (simp add: deref_not_plain)
    ultimately show ?thesis using e d hit(4,5) by auto
  next
    case miss
    let ?e = "\<lparr>stateHashCode = VNum (imm_hashCode E s), entry_value = v1,
               entry_args = toImmutable E st args\<rparr>"
    from miss(1) assms(2) have h: "state_hashCode E s' = Inr (imm_hashCode E s)"
      by (simp add: state_hashCode_def)
    from miss(4) have e: "cachedGetters w1 ?c = Some ?e" by simp
    obtain v2 st2 where d: "deref E v1 (heap w1) = (v2, st2)"
      by (cases "deref E v1 (heap w1)")
    from evaluate_hit [OF e h, of True] d
    have second: "evaluate E s' ?g True w1 = (Inr v2, w1\<lparr>heap := st2\<rparr>)" by simp
    have eq: "\<not> isPlainComposite v1 \<Longrightarrow> v2 = v1"
      using d by (simp add: deref_not_plain)
    from calls_extend(2) [of E s deps True "snd (startTracking ?c True w)"] miss(2)
    obtain new where new: "calls w2 = calls w @ new"
        "\<forall>x\<in>set new. size (fst x) < Suc (size_list size deps)"
      by auto
    have "filter (\<lambda>x. fst x = ?g) new = []"
      using new(2) by (auto simp: filter_empty_conv)
    with new(1) miss(4) have "length (filter (\<lambda>x. fst x = ?g) (calls w1)) =
        Suc (length (filter (\<lambda>x. fst x = ?g) (calls w)))"
      by simp
    with e d second eq show ?thesis by auto
  qed
qed

theorem evaluate_twice_same_hash_witness:
  "fst (evaluate sample_env stateA getterA True (new_Evaluator [])) = Inr (VNum 1) \<and>
   evaluate sample_env stateA getterA True
     (snd (evaluate sample_env stateA getterA True (new_Evaluator []))) =
     (Inr (VNum 1), snd (evaluate sample_env stateA getterA True (new_Evaluator []))) \<and>
   calls (snd (evaluate sample_env stateA getterA True (new_Evaluator []))) =
     [(getterA, [VNum 1])] \<and>
   fst (evaluate sample_env stateA getterArray True (new_Evaluator [])) = Inr (VRef 0) \<and>
   evaluate sample_env stateA getterArray True
     (snd (evaluate sample_env stateA getterArray True (new_Evaluator []))) =
     (Inr (VRef 1),
      (snd (evaluate sample_env stateA getterArray True (new_Evaluator [])))
        \<lparr>heap := [PArr [VNum 1], PArr [VNum 1]]\<rparr>)"
proof -
  let ?deps = "[KeyPath [VStr ''a'']]"
  let ?w1 = "\<lambda>k. snd (evaluate sample_env stateA (Getter ?deps k) True (new_Evaluator []))"
  have v1: "fst (evaluate sample_env stateA (Getter ?deps 0) True (new_Evaluator [])) =
              Inr (VNum 1)"
    by (simp add: sample_defs)
  have v1': "fst (evaluate sample_env stateA (Getter ?deps 2) True (new_Evaluator [])) =
              Inr (VRef 0)"
    by (simp add: sample_defs)
  have h2: "state_hashCode sample_env stateA = state_hashCode sample_env stateA" ..
  have entry: "cachedGetters (?w1 0) (hashCode sample_env (Getter ?deps 0)) =
      Some \<lparr>stateHashCode = VNum 11, entry_value = VNum 1, entry_args = IList [VNum 1]\<rparr>"
    by (simp add: sample_defs)
  have entry': "cachedGetters (?w1 2) (hashCode sample_env (Getter ?deps 2)) =
      Some \<lparr>stateHashCode = VNum 11, entry_value = VRef 0, entry_args = IList [VNum 1]\<rparr>"
    by (simp add: sample_defs)
  have copy: "deref sample_env (VRef 0) (heap (?w1 2)) =
      (VRef 1, [PArr [VNum 1], PArr [VNum 1]])"
    by (simp add: sample_defs)
  from evaluate_twice_same_hash [OF with_snd [OF v1] h2] entry
  have "evaluate sample_env stateA (Getter ?deps 0) True (?w1 0) = (Inr (VNum 1), ?w1 0)"
    by (auto simp: deref_def)
  moreover from evaluate_twice_same_hash [OF with_snd [OF v1'] h2] entry' copy
  have "evaluate sample_env stateA (Getter ?deps 2) True (?w1 2) =
          (Inr (VRef 1), (?w1 2)\<lparr>heap := [PArr [VNum 1], PArr [VNum 1]]\<rparr>)"
    by auto
  ultimately show ?thesis using v1 v1'
    by (simp add: getterA_def getterArray_def) (simp add: sample_defs)
qed


text \<open>
  Claim C7.  On a full recompute, that is with no entry or with an entry recorded under
  another state hash: a call that returns a value has evaluated every dependency by
  \<open>evaluate\<close> with the same state and \<open>track\<close> flag, in the order of the list, has
  invoked the compute function on the resulting values, and returns its result; the new
  triple of arguments, value and state hash overwrites the entry exactly when \<open>track\<close>
  is set or an entry existed.  Conversely the call returns so whenever the dependencies
  and the compute function return and the test of line 95 is false.
\<close>

theorem full_recompute:
  assumes "\<forall>e. cachedGetters w (hashCode E (Getter deps f)) = Some e \<longrightarrow>
             stateHashCode e \<noteq> VNum (imm_hashCode E state)"
  shows "(\<forall>v w'. evaluate E state (Getter deps f) track w = (Inr v, w') \<longrightarrow>
            (\<exists>args w2 st.
               evaluate_deps E state deps track
                 (snd (startTracking (hashCode E (Getter deps f)) track w)) = (Inr args, w2) \<and>
               length args = length deps \<and>
               (\<forall>i<length deps.
                  evaluate E state (deps ! i) track
                    (dep_worlds E state deps track
                       (snd (startTracking (hashCode E (Getter deps f)) track w)) ! i) =
                  (Inr (args ! i),
                   dep_worlds E state deps track
                     (snd (startTracking (hashCode E (Getter deps f)) track w)) ! Suc i)) \<and>
               last (dep_worlds E state deps track
                       (snd (startTracking (hashCode E (Getter deps f)) track w))) = w2 \<and>
               computeFn E f args (heap w2) = (Inr v, st) \<and>
               w' = recomputed E state (Getter deps f)
                      (track \<or> cachedGetters w (hashCode E (Getter deps f)) \<noteq> None)
                      args v st w2)) \<and>
         (\<forall>args w2 v st.
            hasStaleValue E (heap w) state (Getter deps f) = Inr False \<and>
            evaluate_deps E state deps track
              (snd (startTracking (hashCode E (Getter deps f)) track w)) = (Inr args, w2) \<and>
            computeFn E f args (heap w2) = (Inr v, st) \<longrightarrow>
            evaluate E state (Getter deps f) track w =
              (Inr v, recomputed E state (Getter deps f)
                 (track \<or> cachedGetters w (hashCode E (Getter deps f)) \<noteq> None) args v st w2))"
proof (intro conjI allI impI)
  fix v w'
  assume ev: "evaluate E state (Getter deps f) track w = (Inr v, w')"
  from evaluate_Getter_value [OF ev] assms
  obtain args w2 st where
    r: "evaluate_deps E state deps track
          (snd (startTracking (hashCode E (Getter deps f)) track w)) = (Inr args, w2)"
       "computeFn E f args (heap w2) = (Inr v, st)"
       "w' = recomputed E state (Getter deps f)
               (track \<or> cachedGetters w (hashCode E (Getter deps f)) \<noteq> None) args v st w2"
    by auto
  from evaluate_deps_in_order [OF r(1)] r
  show "\<exists>args w2 st.
               evaluate_deps E state deps track
                 (snd (startTracking (hashCode E (Getter deps f)) track w)) = (Inr args, w2) \<and>
               length args = length deps \<and>
               (\<forall>i<length deps.
                  evaluate E state (deps ! i) track
                    (dep_worlds E state deps track
                       (snd (startTracking (hashCode E (Getter deps f)) track w)) ! i) =
                  (Inr (args ! i),
                   dep_worlds E state deps track
                     (snd (startTracking (hashCode E (Getter deps f)) track w)) ! Suc i)) \<and>
               last (dep_worlds E state deps track
                       (snd (startTracking (hashCode E (Getter deps f)) track w))) = w2 \<and>
               computeFn E f args (heap w2) = (Inr v, st) \<and>
               w' = recomputed E state (Getter deps f)
                      (track \<or> cachedGetters w (hashCode E (Getter deps f)) \<noteq> None)
                      args v st w2"
    by blast
next
  fix args w2 v st
  assume h: "hasStaleValue E (heap w) state (Getter deps f) = Inr False \<and>
            evaluate_deps E state deps track
              (snd (startTracking (hashCode E (Getter deps f)) track w)) = (Inr args, w2) \<and>
            computeFn E f args (heap w2) = (Inr v, st)"
  then have imm: "isImmutable state" by (auto dest: hasStaleValue_Inr)
  have "isCached E (snd (startTracking (hashCode E (Getter deps f)) track w)) state
          (Getter deps f) = Inr False"
  proof (cases "cachedGetters w (hashCode E (Getter deps f))")
    case None
    with imm show ?thesis by (rule isCached_no_entry)
  next
    case (Some e)
    with imm assms show ?thesis by (intro isCached_stale_entry [of _ _ _ _ e]) auto
  qed
  from evaluate_Getter_miss [OF this] h
  show "evaluate E state (Getter deps f) track w =
              (Inr v, recomputed E state (Getter deps f)
                 (track \<or> cachedGetters w (hashCode E (Getter deps f)) \<noteq> None) args v st w2)"
    by blast
qed

theorem full_recompute_witness:
  "fst (evaluate sample_env stateB getterPair True (new_Evaluator [])) = Inr (VRef 0) \<and>
   heap (snd (evaluate sample_env stateB getterPair True (new_Evaluator []))) =
     [PArr [VNum 2, VNum 1]] \<and>
   calls (snd (evaluate sample_env stateB getterPair True (new_Evaluator []))) =
     [(getterA, [VNum 1]), (getterPair, [VNum 2, VNum 1])] \<and>
   cachedGetters (snd (evaluate sample_env stateB getterPair True (new_Evaluator []))) 102 =
     Some \<lparr>stateHashCode = VNum 22, entry_value = VRef 0,
           entry_args = IList [VNum 2, VNum 1]\<rparr> \<and>
   fst (evaluate sample_env stateB getterPair False (new_Evaluator [])) = Inr (VRef 0) \<and>
   cachedGetters (snd (evaluate sample_env stateB getterPair False (new_Evaluator []))) 102 =
     None \<and>
   cachedGetters (snd (evaluate sample_env stateA getterA True (new_Evaluator []))) 100 =
     Some \<lparr>stateHashCode = VNum 11, entry_value = VNum 1, entry_args = IList [VNum 1]\<rparr> \<and>
   fst (evaluate sample_env stateB getterA False
          (snd (evaluate sample_env stateA getterA True (new_Evaluator [])))) = Inr (VNum 1) \<and>
   cachedGetters (snd (evaluate sample_env stateB getterA False
          (snd (evaluate sample_env stateA getterA True (new_Evaluator []))))) 100 =
     Some \<lparr>stateHashCode = VNum 22, entry_value = VNum 1, entry_args = IList [VNum 1]\<rparr>"
proof -
  let ?deps = "[KeyPath [VStr ''b''], getterA]"
  let ?w = "new_Evaluator []"
  let ?w1 = "\<lambda>track. snd (startTracking (hashCode sample_env (Getter ?deps 2)) track ?w)"
  let ?w2 = "\<lambda>track. snd (evaluate_deps sample_env stateB ?deps track (?w1 track))"
  have h2: "\<forall>e. cachedGetters ?w (hashCode sample_env (Getter ?deps 2)) = Some e \<longrightarrow>
             stateHashCode e \<noteq> VNum (imm_hashCode sample_env stateB)"
    by (simp add: new_Evaluator_def)
  have h3: "hasStaleValue sample_env (heap ?w) stateB (Getter ?deps 2) = Inr False"
    by (simp add: sample_defs)
  have h4: "evaluate_deps sample_env stateB ?deps track (?w1 track) =
              (Inr [VNum 2, VNum 1], ?w2 track)" for track
    by (cases track) (simp_all add: sample_defs)
  have h5: "computeFn sample_env 2 [VNum 2, VNum 1] (heap (?w2 track)) =
              (Inr (VRef 0), [PArr [VNum 2, VNum 1]])" for track
    by (cases track) (simp_all add: sample_defs)
  have fresh: "evaluate sample_env stateB (Getter ?deps 2) track ?w =
          (Inr (VRef 0), recomputed sample_env stateB (Getter ?deps 2)
             (track \<or> cachedGetters ?w (hashCode sample_env (Getter ?deps 2)) \<noteq> None)
             [VNum 2, VNum 1] (VRef 0) [PArr [VNum 2, VNum 1]] (?w2 track))" for track
    using full_recompute [OF h2, of track] h3 h4 [of track] h5 [of track] by blast
  let ?d = "[KeyPath [VStr ''a'']]"
  let ?v = "snd (evaluate sample_env stateA (Getter ?d 0) True (new_Evaluator []))"
  let ?v2 = "snd (evaluate_deps sample_env stateB ?d False
                (snd (startTracking (hashCode sample_env (Getter ?d 0)) False ?v)))"
  have old: "cachedGetters ?v (hashCode sample_env (Getter ?d 0)) =
     Some \<lparr>stateHashCode = VNum 11, entry_value = VNum 1, entry_args = IList [VNum 1]\<rparr>"
    by (simp add: sample_defs)
  then have k2: "\<forall>e. cachedGetters ?v (hashCode sample_env (Getter ?d 0)) = Some e \<longrightarrow>
             stateHashCode e \<noteq> VNum (imm_hashCode sample_env stateB)"
    by (simp add: sample_defs)
  have k3: "hasStaleValue sample_env (heap ?v) stateB (Getter ?d 0) = Inr False"
    by (simp add: sample_defs)
  have k4: "evaluate_deps sample_env stateB ?d False
              (snd (startTracking (hashCode sample_env (Getter ?d 0)) False ?v)) =
              (Inr [VNum 1], ?v2)"
    by (simp add: sample_defs)
  have k5: "computeFn sample_env 0 [VNum 1] (heap ?v2) = (Inr (VNum 1), [])"
    by (simp add: sample_defs)
  have stale: "evaluate sample_env stateB (Getter ?d 0) False ?v =
          (Inr (VNum 1), recomputed sample_env stateB (Getter ?d 0)
             (False \<or> cachedGetters ?v (hashCode sample_env (Getter ?d 0)) \<noteq> None)
             [VNum 1] (VNum 1) [] ?v2)"
    using full_recompute [OF k2, of False] k3 k4 k5 by blast
  from fresh [of True] fresh [of False] stale old show ?thesis
    by (simp add: getterPair_def getterA_def [symmetric])
       (simp add: sample_defs)
qed


text \<open>
  Claim C1 fails on the code.  With an entry recorded under the hash of \<open>stateA\<close>, the
  getter is evaluated against \<open>stateB\<close>, whose hash differs and where the dependency has
  the value of the recorded arguments: the compute function is invoked a second time.
  The test of line 95 looks the fingerprint up in the state, where it is no key; and on
  \<open>stateC\<close>, which has that key, the call ends with the \<^verbatim>\<open>ReferenceError\<close> of line 99.
\<close>

theorem stale_entry_recomputes:
  "cachedGetters (snd (evaluate sample_env stateA getterA True (new_Evaluator []))) 100 =
     Some \<lparr>stateHashCode = VNum 11, entry_value = VNum 1, entry_args = IList [VNum 1]\<rparr> \<and>
   imm_hashCode sample_env stateB = 22 \<and>
   evaluate_deps sample_env stateB [KeyPath [VStr ''a'']] True
     (snd (evaluate sample_env stateA getterA True (new_Evaluator []))) =
     (Inr [VNum 1], snd (evaluate sample_env stateA getterA True (new_Evaluator []))) \<and>
   toImmutable sample_env [] [VNum 1] = IList [VNum 1] \<and>
   fst (evaluate sample_env stateB getterA True
     (snd (evaluate sample_env stateA getterA True (new_Evaluator [])))) = Inr (VNum 1) \<and>
   calls (snd (evaluate sample_env stateA getterA True (new_Evaluator []))) =
     [(getterA, [VNum 1])] \<and>
   calls (snd (evaluate sample_env stateB getterA True
     (snd (evaluate sample_env stateA getterA True (new_Evaluator []))))) =
     [(getterA, [VNum 1]), (getterA, [VNum 1])] \<and>
   hasStaleValue sample_env [] stateB getterA = Inr False \<and>
   hasStaleValue sample_env [] stateC getterA = Inr True \<and>
   fst (evaluate sample_env stateC getterA True
     (snd (evaluate sample_env stateA getterA True (new_Evaluator [])))) = Inl ReferenceError"
  by (simp add: sample_defs)

text \<open>
  Claim C3 fails on the code.  The first tracked evaluation returns the plain array the
  compute function made, and the entry holds the same reference (line 123 returns
  \<^verbatim>\<open>evaluatedValue\<close> without \<^verbatim>\<open>deref\<close>).  Evaluated again, the getter returns a copy
  with the element 1; after the caller has pushed 99 onto the array it was given, the
  same call returns a copy with the elements 1 and 99.
\<close>

theorem fresh_array_shared_with_cache:
  "fst (evaluate sample_env stateA getterArray True (new_Evaluator [])) = Inr (VRef 0) \<and>
   heap (snd (evaluate sample_env stateA getterArray True (new_Evaluator []))) =
     [PArr [VNum 1]] \<and>
   cachedGetters (snd (evaluate sample_env stateA getterArray True (new_Evaluator []))) 102 =
     Some \<lparr>stateHashCode = VNum 11, entry_value = VRef 0, entry_args = IList [VNum 1]\<rparr> \<and>
   fst (evaluate sample_env stateA getterArray True
     (snd (evaluate sample_env stateA getterArray True (new_Evaluator [])))) = Inr (VRef 1) \<and>
   heap (snd (evaluate sample_env stateA getterArray True
     (snd (evaluate sample_env stateA getterArray True (new_Evaluator []))))) ! 1 =
     PArr [VNum 1] \<and>
   fst (evaluate sample_env stateA getterArray True
     ((snd (evaluate sample_env stateA getterArray True (new_Evaluator [])))
        \<lparr>heap := (heap (snd (evaluate sample_env stateA getterArray True (new_Evaluator []))))
                  [0 := PArr [VNum 1, VNum 99]]\<rparr>)) = Inr (VRef 1) \<and>
   heap (snd (evaluate sample_env stateA getterArray True
     ((snd (evaluate sample_env stateA getterArray True (new_Evaluator [])))
        \<lparr>heap := (heap (snd (evaluate sample_env stateA getterArray True (new_Evaluator []))))
                  [0 := PArr [VNum 1, VNum 99]]\<rparr>))) ! 1 = PArr [VNum 1, VNum 99]"
  by (simp add: sample_defs)


section \<open>Failed evaluations\<close>

text \<open>
  Claim C2 fails on the code as stated: a tracked getter without an entry whose compute
  function throws leaves the entry of three \<^verbatim>\<open>null\<close>s that lines 79 to 85 wrote, so the
  cache is not as it was before the call.
\<close>

theorem failed_compute_leaves_null_entry:
  "fst (evaluate sample_env stateA getterThrow True (new_Evaluator [])) =
     Inl (Thrown (VStr ''boom'')) \<and>
   cachedGetters (new_Evaluator []) (hashCode sample_env getterThrow) = None \<and>
   cachedGetters (snd (evaluate sample_env stateA getterThrow True (new_Evaluator [])))
     (hashCode sample_env getterThrow) =
     Some \<lparr>stateHashCode = VNull, entry_value = VNull, entry_args = VNull\<rparr> \<and>
   cachedGetters (snd (evaluate sample_env stateA getterThrow True (new_Evaluator []))) \<noteq>
     cachedGetters (new_Evaluator [])"
proof -
  have "cachedGetters (snd (evaluate sample_env stateA getterThrow True (new_Evaluator []))) 101
        \<noteq> cachedGetters (new_Evaluator []) 101"
    by (simp add: sample_defs)
  then have "cachedGetters (snd (evaluate sample_env stateA getterThrow True (new_Evaluator [])))
        \<noteq> cachedGetters (new_Evaluator [])"
    by metis
  then show ?thesis by (simp add: sample_defs)
qed

text \<open>
  Claim C2, amended.  When the evaluation of a getter ends with an error (thrown by the
  compute function, by a dependency, or by a test on the state) and no nested dependency
  has the getter's own fingerprint: an entry that existed for the fingerprint is
  unchanged; where none existed, the entry of three \<^verbatim>\<open>null\<close>s is left when \<open>track\<close> is
  set and no entry otherwise; and every entry at a fingerprint of no getter of the
  descriptor is unchanged.
\<close>

theorem failed_evaluate_entry:
  assumes "evaluate E state (Getter deps f) track w = (Inl x, w')"
    and "hashCode E (Getter deps f) \<notin> set (concat (map (fingerprints E) deps))"
  shows "cachedGetters w' (hashCode E (Getter deps f)) =
           (case cachedGetters w (hashCode E (Getter deps f)) of
              Some e \<Rightarrow> Some e
            | None \<Rightarrow> if track then Some null_entry else None) \<and>
         (\<forall>c. c \<notin> set (fingerprints E (Getter deps f)) \<longrightarrow>
              cachedGetters w' c = cachedGetters w c)"
proof -
  let ?g = "Getter deps f"
  let ?c = "hashCode E ?g"
  let ?w1 = "snd (startTracking ?c track w)"
  obtain r w2 where deps: "evaluate_deps E state deps track ?w1 = (r, w2)"
    by (cases "evaluate_deps E state deps track ?w1")
  from cache_frame(2) [OF assms(2), of state track ?w1] deps
  have w2: "cachedGetters w2 ?c = cachedGetters ?w1 ?c" by simp
  have "cachedGetters w' ?c = cachedGetters ?w1 ?c"
    using assms(1) deps w2
    by (auto simp: evaluate_Getter Let_def simp del: evaluate.simps
          split: sum.splits if_splits prod.splits)
  moreover have "cachedGetters w' c = cachedGetters w c"
    if "c \<notin> set (fingerprints E ?g)" for c
    using cache_frame(1) [OF that, of state track w] assms(1) by simp
  ultimately show ?thesis by simp
qed

theorem failed_evaluate_entry_witness:
  "fst (evaluate sample_env stateA getterThrow False (new_Evaluator [])) =
     Inl (Thrown (VStr ''boom'')) \<and>
   cachedGetters (snd (evaluate sample_env stateA getterThrow False (new_Evaluator []))) 101 =
     None \<and>
   fst (evaluate sample_env stateA getterThrow True (new_Evaluator [])) =
     Inl (Thrown (VStr ''boom'')) \<and>
   cachedGetters (snd (evaluate sample_env stateA getterThrow True (new_Evaluator []))) 101 =
     Some null_entry \<and>
   fst (evaluate sample_env stateC getterA True
     (snd (evaluate sample_env stateA getterA True (new_Evaluator [])))) = Inl ReferenceError \<and>
   cachedGetters (snd (evaluate sample_env stateC getterA True
     (snd (evaluate sample_env stateA getterA True (new_Evaluator []))))) 100 =
     Some \<lparr>stateHashCode = VNum 11, entry_value = VNum 1, entry_args = IList [VNum 1]\<rparr>"
proof -
  let ?deps = "[KeyPath [VStr ''a'']]"
  let ?w = "snd (evaluate sample_env stateA (Getter ?deps 0) True (new_Evaluator []))"
  have e: "fst (evaluate sample_env stateA (Getter ?deps 1) track (new_Evaluator [])) =
             Inl (Thrown (VStr ''boom''))" for track
    by (cases track) (simp_all add: sample_defs)
  have e': "fst (evaluate sample_env stateC (Getter ?deps 0) True ?w) = Inl ReferenceError"
    by (simp add: sample_defs)
  have n: "hashCode sample_env (Getter ?deps k) \<notin>
             set (concat (map (fingerprints sample_env) ?deps))" for k
    by simp
  have old: "cachedGetters ?w (hashCode sample_env (Getter ?deps 0)) =
     Some \<lparr>stateHashCode = VNum 11, entry_value = VNum 1, entry_args = IList [VNum 1]\<rparr>"
    by (simp add: sample_defs)
  from failed_evaluate_entry [OF with_snd [OF e [of False]] n]
       failed_evaluate_entry [OF with_snd [OF e [of True]] n]
       failed_evaluate_entry [OF with_snd [OF e'] n] old e e'
  show ?thesis
    by (simp add: getterThrow_def getterA_def sample_env_def new_Evaluator_def)
qed

section \<open>Forgetting entries\<close>

text \<open>
  Claim C8.  \<open>untrack\<close> removes the entry at the getter's fingerprint and nothing else:
  every other entry, of a dependent getter too, is unchanged.  After it, for every state
  and \<open>track\<close> flag, a value the next evaluation of the getter returns comes from a
  recompute (dependencies evaluated, compute function invoked, entry written exactly
  when \<open>track\<close> is set), never from the cache; and the evaluation returns so whenever the
  dependencies and the compute function return and the test of line 95 is false.
\<close>

theorem untrack_one_entry:
  "cachedGetters (untrack E g w) = (cachedGetters w)(hashCode E g := None) \<and>
   heap (untrack E g w) = heap w \<and> calls (untrack E g w) = calls w \<and>
   (\<forall>c. c \<noteq> hashCode E g \<longrightarrow> cachedGetters (untrack E g w) c = cachedGetters w c) \<and>
   (\<forall>state track v w'.
      evaluate E state (Getter deps f) track (untrack E (Getter deps f) w) = (Inr v, w') \<longrightarrow>
      (\<exists>args w2 st.
         evaluate_deps E state deps track
           (snd (startTracking (hashCode E (Getter deps f)) track
                  (untrack E (Getter deps f) w))) = (Inr args, w2) \<and>
         computeFn E f args (heap w2) = (Inr v, st) \<and>
         w' = recomputed E state (Getter deps f) track args v st w2)) \<and>
   (\<forall>state track args w2 v st.
      hasStaleValue E (heap w) state (Getter deps f) = Inr False \<and>
      evaluate_deps E state deps track
        (snd (startTracking (hashCode E (Getter deps f)) track
               (untrack E (Getter deps f) w))) = (Inr args, w2) \<and>
      computeFn E f args (heap w2) = (Inr v, st) \<longrightarrow>
      evaluate E state (Getter deps f) track (untrack E (Getter deps f) w) =
        (Inr v, recomputed E state (Getter deps f) track args v st w2))"
proof -
  have none: "cachedGetters (untrack E (Getter deps f) w) (hashCode E (Getter deps f)) = None"
    by (simp add: untrack_def)
  show ?thesis
    using evaluate_no_entry_value [OF none] evaluate_no_entry_recompute [OF none]
    by (simp add: untrack_def)
qed

theorem untrack_one_entry_witness:
  "cachedGetters (snd (evaluate sample_env stateB getterPair True (new_Evaluator []))) 100 =
     Some \<lparr>stateHashCode = VNum 22, entry_value = VNum 1, entry_args = IList [VNum 1]\<rparr> \<and>
   cachedGetters
     (untrack sample_env getterA
        (snd (evaluate sample_env stateB getterPair True (new_Evaluator [])))) 100 = None \<and>
   cachedGetters
     (untrack sample_env getterA
        (snd (evaluate sample_env stateB getterPair True (new_Evaluator [])))) 102 =
     Some \<lparr>stateHashCode = VNum 22, entry_value = VRef 0,
           entry_args = IList [VNum 2, VNum 1]\<rparr> \<and>
   fst (evaluate sample_env stateB getterA True
     (untrack sample_env getterA
        (snd (evaluate sample_env stateB getterPair True (new_Evaluator []))))) =
     Inr (VNum 1) \<and>
   calls (snd (evaluate sample_env stateB getterA True
     (untrack sample_env getterA
        (snd (evaluate sample_env stateB getterPair True (new_Evaluator [])))))) =
     [(getterA, [VNum 1]), (getterPair, [VNum 2, VNum 1]), (getterA, [VNum 1])]"
proof -
  let ?deps = "[KeyPath [VStr ''a'']]"
  let ?g = "Getter ?deps 0"
  let ?w = "snd (evaluate sample_env stateB getterPair True (new_Evaluator []))"
  let ?u = "untrack sample_env ?g ?w"
  let ?w2 = "snd (evaluate_deps sample_env stateB ?deps True
               (snd (startTracking (hashCode sample_env ?g) True ?u)))"
  note T = untrack_one_entry [of sample_env ?g ?w ?deps 0]
  have h1: "hasStaleValue sample_env (heap ?w) stateB ?g = Inr False"
    by (simp add: sample_defs)
  have h2: "evaluate_deps sample_env stateB ?deps True
              (snd (startTracking (hashCode sample_env ?g) True ?u)) = (Inr [VNum 1], ?w2)"
    by (simp add: sample_defs)
  have h3: "computeFn sample_env 0 [VNum 1] (heap ?w2) = (Inr (VNum 1), [PArr [VNum 2, VNum 1]])"
    by (simp add: sample_defs untrack_def getterPair_def)
  from T have "evaluate sample_env stateB ?g True ?u =
      (Inr (VNum 1),
       recomputed sample_env stateB ?g True [VNum 1] (VNum 1) [PArr [VNum 2, VNum 1]] ?w2)"
    using h1 h2 h3 by blast
  moreover from T have "cachedGetters ?u = (cachedGetters ?w)(hashCode sample_env ?g := None)"
    by blast
  moreover have "calls ?w2 = [(getterA, [VNum 1]), (getterPair, [VNum 2, VNum 1])]"
    by (simp add: sample_defs untrack_def getterPair_def)
  moreover have "cachedGetters ?w 102 =
     Some \<lparr>stateHashCode = VNum 22, entry_value = VRef 0,
           entry_args = IList [VNum 2, VNum 1]\<rparr>"
    by (simp add: sample_defs getterPair_def)
  moreover have "cachedGetters ?w 100 =
     Some \<lparr>stateHashCode = VNum 22, entry_value = VNum 1, entry_args = IList [VNum 1]\<rparr>"
    by (simp add: sample_defs getterPair_def)
  ultimately show ?thesis
    by (simp add: getterA_def [symmetric]) (simp add: getterA_def sample_env_def)
qed


text \<open>
  Claim C9.  \<open>reset\<close> leaves the cache empty, as the constructor does.  After it, for
  every getter, state and \<open>track\<close> flag, a value the next evaluation returns comes from a
  recompute, as on the first evaluation; and the evaluation returns so whenever the
  dependencies and the compute function return and the test of line 95 is false.
\<close>

theorem reset_clears:
  "cachedGetters (reset w) = Map.empty \<and>
   reset w = (new_Evaluator (heap w))\<lparr>calls := calls w\<rparr> \<and>
   (\<forall>state track v w'.
      evaluate E state (Getter deps f) track (reset w) = (Inr v, w') \<longrightarrow>
      (\<exists>args w2 st.
         evaluate_deps E state deps track
           (snd (startTracking (hashCode E (Getter deps f)) track (reset w))) = (Inr args, w2) \<and>
         computeFn E f args (heap w2) = (Inr v, st) \<and>
         w' = recomputed E state (Getter deps f) track args v st w2)) \<and>
   (\<forall>state track args w2 v st.
      hasStaleValue E (heap w) state (Getter deps f) = Inr False \<and>
      evaluate_deps E state deps track
        (snd (startTracking (hashCode E (Getter deps f)) track (reset w))) = (Inr args, w2) \<and>
      computeFn E f args (heap w2) = (Inr v, st) \<longrightarrow>
      evaluate E state (Getter deps f) track (reset w) =
        (Inr v, recomputed E state (Getter deps f) track args v st w2))"
proof -
  have none: "cachedGetters (reset w) (hashCode E (Getter deps f)) = None"
    by (simp add: reset_def)
  show ?thesis
    using evaluate_no_entry_value [OF none] evaluate_no_entry_recompute [OF none]
    by (simp add: reset_def new_Evaluator_def)
qed

theorem reset_clears_witness:
  "cachedGetters (reset (snd (evaluate sample_env stateA getterA True (new_Evaluator [])))) 100 =
     None \<and>
   fst (evaluate sample_env stateA getterA True
     (reset (snd (evaluate sample_env stateA getterA True (new_Evaluator []))))) = Inr (VNum 1) \<and>
   calls (snd (evaluate sample_env stateA getterA True
     (reset (snd (evaluate sample_env stateA getterA True (new_Evaluator [])))))) =
     [(getterA, [VNum 1]), (getterA, [VNum 1])]"
proof -
  let ?deps = "[KeyPath [VStr ''a'']]"
  let ?g = "Getter ?deps 0"
  let ?w = "snd (evaluate sample_env stateA ?g True (new_Evaluator []))"
  let ?u = "reset ?w"
  let ?w2 = "snd (evaluate_deps sample_env stateA ?deps True
               (snd (startTracking (hashCode sample_env ?g) True ?u)))"
  note T = reset_clears [of ?w sample_env ?deps 0]
  have h1: "hasStaleValue sample_env (heap ?w) stateA ?g = Inr False"
    by (simp add: sample_defs)
  have h2: "evaluate_deps sample_env stateA ?deps True
              (snd (startTracking (hashCode sample_env ?g) True ?u)) = (Inr [VNum 1], ?w2)"
    by (simp add: sample_defs)
  have h3: "computeFn sample_env 0 [VNum 1] (heap ?w2) = (Inr (VNum 1), [])"
    by (simp add: sample_defs reset_def)
  from T have "evaluate sample_env stateA ?g True ?u =
      (Inr (VNum 1), recomputed sample_env stateA ?g True [VNum 1] (VNum 1) [] ?w2)"
    using h1 h2 h3 by blast
  moreover from T have "cachedGetters ?u = Map.empty"
    by blast
  moreover have "calls ?w2 = [(getterA, [VNum 1])]"
    by (simp add: sample_defs reset_def)
  ultimately show ?thesis
    by (simp add: getterA_def [symmetric])
qed

text \<open>
  Claim C10.  \<open>untrack\<close> is idempotent: where no entry exists for the getter's
  fingerprint it leaves the cache unchanged, so a second \<open>untrack\<close> of the same getter
  changes nothing.
\<close>

theorem untrack_idempotent:
  "untrack E g (untrack E g w) = untrack E g w \<and>
   (cachedGetters w (hashCode E g) = None \<longrightarrow> untrack E g w = w)"
proof -
  have "cachedGetters w (hashCode E g) = None \<Longrightarrow>
        (cachedGetters w)(hashCode E g := None) = cachedGetters w"
    by (metis fun_upd_triv)
  then show ?thesis by (simp add: untrack_def)
qed

theorem untrack_idempotent_witness:
  "untrack sample_env getterA (untrack sample_env getterA
      (snd (evaluate sample_env stateA getterA True (new_Evaluator [])))) =
   untrack sample_env getterA (snd (evaluate sample_env stateA getterA True (new_Evaluator []))) \<and>
   cachedGetters (new_Evaluator []) (hashCode sample_env getterA) = None \<and>
   untrack sample_env getterA (new_Evaluator []) = new_Evaluator []"
  using untrack_idempotent [of sample_env getterA
      "snd (evaluate sample_env stateA getterA True (new_Evaluator []))"]
    untrack_idempotent [of sample_env getterA "new_Evaluator []"]
  by (simp add: new_Evaluator_def)

end
